theory Spec2Isabelle
  imports Main
begin

section \<open>The entity graph of \<^verbatim>\<open>taipy/core/taipy.py\<close>\<close>

text \<open>
  The module \<^verbatim>\<open>taipy.core.taipy\<close> is the kind-polymorphic front of seven managers, one
  per entity kind. The development embeds its router functions (\<^verbatim>\<open>set\<close>, \<^verbatim>\<open>submit\<close>,
  \<^verbatim>\<open>exists\<close>, \<^verbatim>\<open>get\<close>, \<^verbatim>\<open>is_deletable\<close>, \<^verbatim>\<open>delete\<close>), the version cleanup
  \<^verbatim>\<open>clean_all_entities\<close>, the export \<^verbatim>\<open>export_scenario\<close> and the ancestor walk
  \<^verbatim>\<open>get_parents\<close>, each branch for branch.
\<close>

subsection \<open>Data model\<close>

datatype kind = Job | Cycle | Scenario | Sequence | Task | DataNode | Submission

text \<open>
  One record for the attributes of an entity object that the module reads: \<^verbatim>\<open>.id\<close>,
  \<^verbatim>\<open>.version\<close>, \<^verbatim>\<open>.parent_ids\<close> (absent on the classes that do not track parents, so
  reading it raises \<^verbatim>\<open>AttributeError\<close>), \<^verbatim>\<open>.cycle\<close> (the cycle of a scenario, by its
  identifier) and, for a job, whether its execution is finished.
\<close>

record entity =
  eid :: string
  version :: string
  parent_ids :: "string list option"
  cycle :: "string option"
  is_finished :: bool

text \<open>
  A Python value as the router functions receive it: an instance of one of the seven
  entity classes, a string, \<^verbatim>\<open>None\<close>, or any other object.
\<close>

datatype pyval = PyNone | PyStr string | Ent kind entity | PyOther

datatype error =
    ModelNotFound string string
  | AttributeError
  | RuntimeError
  | JobNotDeletedException string
  | VersionIsNotProductionVersion string
  | InvalidExportPath
  | ExportFolderAlreadyExists string string

text \<open>
  The state the module works on: one store per kind (identifier to record), the
  bookkeeping of the version manager, the folders of the file system (a folder that exists
  maps to the records written into it), and the warnings logged so far.
\<close>

datatype exported = EntityRecord kind string | VersionRecord string

record state =
  stores :: "kind \<Rightarrow> string \<rightharpoonup> entity"
  versions :: "string list"
  production_versions :: "string list"
  folders :: "string \<rightharpoonup> exported list"
  log :: "string list"

text \<open>A call that may raise returns the error or the value, and the state it leaves.\<close>

type_synonym 'a outcome = "(error + 'a) \<times> state"

text \<open>
  \<^verbatim>\<open>_EntityIds\<close>, the value returned by \<^verbatim>\<open>_get_children_entity_ids\<close>: one collection of
  identifiers per kind.
\<close>

record entity_ids =
  data_node_ids :: "string list"
  task_ids :: "string list"
  sequence_ids :: "string list"
  cycle_ids :: "string list"
  scenario_ids :: "string list"
  job_ids :: "string list"
  submission_ids :: "string list"

text \<open>
  What the module imports and the sources at hand do not hold is a parameter: the
  \<^verbatim>\<open>_ID_PREFIX\<close> and \<^verbatim>\<open>_MANAGER_NAME\<close> constants of the entity classes,
  \<^verbatim>\<open>Config.core.taipy_storage_folder\<close>, the version manager's
  \<^verbatim>\<open>_replace_version_number\<close> (\<open>Inl\<close> the message of the \<^verbatim>\<open>NonExistingVersion\<close> it
  raises, \<open>Inr\<close> the version it resolves to), the managers' \<^verbatim>\<open>_hard_delete\<close>,
  \<^verbatim>\<open>_delete_by_version\<close>, \<^verbatim>\<open>_is_deletable\<close>, \<^verbatim>\<open>_submit\<close> and
  \<^verbatim>\<open>_get_children_entity_ids\<close>, and the warnings that the decorator
  \<^verbatim>\<open>_warn_no_core_service\<close> logs before the function it wraps runs. Which stores the bulk
  delete of one manager touches is not visible from the module, so \<open>delete_by_version\<close> is
  any function on the state.
\<close>

record env =
  ID_PREFIX :: "kind \<Rightarrow> string"
  MANAGER_NAME :: "kind \<Rightarrow> string"
  taipy_storage_folder :: string
  replace_version_number :: "state \<Rightarrow> string \<Rightarrow> string + string"
  hard_delete :: "kind \<Rightarrow> string \<Rightarrow> state \<Rightarrow> unit outcome"
  delete_by_version :: "kind \<Rightarrow> string \<Rightarrow> state \<Rightarrow> state"
  manager_is_deletable :: "kind \<Rightarrow> pyval \<Rightarrow> state \<Rightarrow> bool"
  manager_submit ::
    "kind \<Rightarrow> entity \<Rightarrow> bool \<Rightarrow> bool \<Rightarrow> nat option \<Rightarrow> (string \<times> string) list \<Rightarrow> state \<Rightarrow> pyval outcome"
  get_children_entity_ids :: "state \<Rightarrow> entity \<Rightarrow> entity_ids"
  warn_no_core_service :: "string \<Rightarrow> state \<Rightarrow> string list"

subsection \<open>The managers' single-record operations\<close>

definition manager_get :: "kind \<Rightarrow> string \<Rightarrow> state \<Rightarrow> pyval" where
  \<comment> \<open>Modelled from the spec: the manager's \<^verbatim>\<open>_get\<close> is not in the sources. The store of a
      kind is a keyed map from identifier to record, and its manager builds objects of its own
      class; \<^verbatim>\<open>get\<close>'s docstring says that \<^verbatim>\<open>None\<close> is returned when no entity matches.\<close>
  "manager_get k i st = (case stores st k i of None \<Rightarrow> PyNone | Some e \<Rightarrow> Ent k e)"

definition manager_exists :: "kind \<Rightarrow> string \<Rightarrow> state \<Rightarrow> bool" where
  \<comment> \<open>Modelled from the spec: the manager's \<^verbatim>\<open>_exists\<close> is not in the sources; it tells
      whether the store of the kind has a record under the identifier.\<close>
  "manager_exists k i st = (stores st k i \<noteq> None)"

definition manager_set :: "kind \<Rightarrow> entity \<Rightarrow> state \<Rightarrow> state" where
  \<comment> \<open>Modelled from the spec: the manager's \<^verbatim>\<open>_set\<close> is not in the sources; it is an
      upsert keyed by the entity's identifier.\<close>
  "manager_set k e st = st\<lparr>stores := (stores st)(k := (stores st k)(eid e \<mapsto> e))\<rparr>"

definition manager_delete :: "kind \<Rightarrow> string \<Rightarrow> state \<Rightarrow> unit outcome" where
  \<comment> \<open>Modelled from the spec: the manager's \<^verbatim>\<open>_delete\<close> is not in the sources; it removes the
      one record under the identifier and nothing else. \<^verbatim>\<open>delete\<close>'s docstring says that
      \<^verbatim>\<open>ModelNotFound\<close> is raised when no entity corresponds to the identifier.\<close>
  "manager_delete k i st =
     (case stores st k i of
        None \<Rightarrow> (Inl (ModelNotFound ''NOT_FOUND'' i), st)
      | Some _ \<Rightarrow> (Inr (), st\<lparr>stores := (stores st)(k := (stores st k)(i := None))\<rparr>))"

definition job_manager_delete :: "pyval \<Rightarrow> bool \<Rightarrow> state \<Rightarrow> unit outcome" where
  \<comment> \<open>Modelled from the spec: the job manager's \<^verbatim>\<open>_delete(job, force)\<close> is not in the
      sources. A job must be in a terminal state unless \<^verbatim>\<open>force\<close> is set; then the job record
      only is deleted; otherwise the call fails. A job that was not found is reported as
      \<^verbatim>\<open>ModelNotFound\<close>, as \<^verbatim>\<open>delete\<close>'s docstring says.\<close>
  "job_manager_delete job force st =
     (case job of
        Ent k e \<Rightarrow>
          if is_finished e \<or> force then manager_delete Job (eid e) st
          else (Inl (JobNotDeletedException (eid e)), st)
      | _ \<Rightarrow> (Inl (ModelNotFound ''NOT_FOUND'' ''''), st))"

subsection \<open>Identifier scheme\<close>

definition startswith :: "string \<Rightarrow> string \<Rightarrow> bool" where
  "startswith s p = (take (length p) s = p)"

text \<open>
  The predicates \<^verbatim>\<open>_is_job\<close>, ..., \<^verbatim>\<open>_is_submission\<close> of \<^verbatim>\<open>common._check_instance\<close>
  are not in the sources. On an identifier each one tests the prefix of its kind, the test
  that \<^verbatim>\<open>is_deletable\<close> writes in line as \<^verbatim>\<open>entity.startswith(Job._ID_PREFIX)\<close>.
\<close>

definition is_job :: "env \<Rightarrow> string \<Rightarrow> bool" where
  \<comment> \<open>Modelled from the spec: \<^verbatim>\<open>_is_job\<close> is not in the sources; every identifier carries
      the prefix of its kind.\<close>
  "is_job env s = startswith s (ID_PREFIX env Job)"

definition is_cycle :: "env \<Rightarrow> string \<Rightarrow> bool" where
  \<comment> \<open>Modelled from the spec: \<^verbatim>\<open>_is_cycle\<close> is not in the sources; see \<open>is_job\<close>.\<close>
  "is_cycle env s = startswith s (ID_PREFIX env Cycle)"

definition is_scenario :: "env \<Rightarrow> string \<Rightarrow> bool" where
  \<comment> \<open>Modelled from the spec: \<^verbatim>\<open>_is_scenario\<close> is not in the sources; see \<open>is_job\<close>.\<close>
  "is_scenario env s = startswith s (ID_PREFIX env Scenario)"

definition is_sequence :: "env \<Rightarrow> string \<Rightarrow> bool" where
  \<comment> \<open>Modelled from the spec: \<^verbatim>\<open>_is_sequence\<close> is not in the sources; see \<open>is_job\<close>.\<close>
  "is_sequence env s = startswith s (ID_PREFIX env Sequence)"

definition is_task :: "env \<Rightarrow> string \<Rightarrow> bool" where
  \<comment> \<open>Modelled from the spec: \<^verbatim>\<open>_is_task\<close> is not in the sources; see \<open>is_job\<close>.\<close>
  "is_task env s = startswith s (ID_PREFIX env Task)"

definition is_data_node :: "env \<Rightarrow> string \<Rightarrow> bool" where
  \<comment> \<open>Modelled from the spec: \<^verbatim>\<open>_is_data_node\<close> is not in the sources; see \<open>is_job\<close>.\<close>
  "is_data_node env s = startswith s (ID_PREFIX env DataNode)"

definition is_submission :: "env \<Rightarrow> string \<Rightarrow> bool" where
  \<comment> \<open>Modelled from the spec: \<^verbatim>\<open>_is_submission\<close> is not in the sources; see \<open>is_job\<close>.\<close>
  "is_submission env s = startswith s (ID_PREFIX env Submission)"

text \<open>
  The spec's \<^verbatim>\<open>kind_of\<close>: the kinds are tried in the fixed priority order, and the first
  one whose prefix starts the identifier is the answer.
\<close>

definition priority :: "kind list" where
  "priority = [Job, Cycle, Scenario, Sequence, Task, DataNode, Submission]"

definition kind_of :: "env \<Rightarrow> string \<Rightarrow> kind option" where
  "kind_of env s = find (\<lambda>k. startswith s (ID_PREFIX env k)) priority"

text \<open>
  The spec's condition on the prefixes: none of them starts with another one.
\<close>

definition prefix_free :: "env \<Rightarrow> bool" where
  "prefix_free env =
     (\<forall>k\<in>set priority. \<forall>k'\<in>set priority.
        k \<noteq> k' \<longrightarrow> \<not> startswith (ID_PREFIX env k) (ID_PREFIX env k'))"

subsection \<open>The router: \<^verbatim>\<open>exists\<close>, \<^verbatim>\<open>get\<close>, \<^verbatim>\<open>delete\<close>\<close>

definition exists :: "env \<Rightarrow> state \<Rightarrow> string \<Rightarrow> error + bool" where
  "exists env st entity_id =
     (if is_job env entity_id then Inr (manager_exists Job entity_id st)
      else if is_cycle env entity_id then Inr (manager_exists Cycle entity_id st)
      else if is_scenario env entity_id then Inr (manager_exists Scenario entity_id st)
      else if is_sequence env entity_id then Inr (manager_exists Sequence entity_id st)
      else if is_task env entity_id then Inr (manager_exists Task entity_id st)
      else if is_data_node env entity_id then Inr (manager_exists DataNode entity_id st)
      else if is_submission env entity_id then Inr (manager_exists Submission entity_id st)
      else Inl (ModelNotFound ''NOT_DETERMINED'' entity_id))"

definition get :: "env \<Rightarrow> state \<Rightarrow> string \<Rightarrow> error + pyval" where
  "get env st entity_id =
     (if is_job env entity_id then Inr (manager_get Job entity_id st)
      else if is_cycle env entity_id then Inr (manager_get Cycle entity_id st)
      else if is_scenario env entity_id then Inr (manager_get Scenario entity_id st)
      else if is_sequence env entity_id then Inr (manager_get Sequence entity_id st)
      else if is_task env entity_id then Inr (manager_get Task entity_id st)
      else if is_data_node env entity_id then Inr (manager_get DataNode entity_id st)
      else if is_submission env entity_id then Inr (manager_get Submission entity_id st)
      else Inl (ModelNotFound ''NOT_DETERMINED'' entity_id))"

definition delete :: "env \<Rightarrow> string \<Rightarrow> state \<Rightarrow> unit outcome" where
  "delete env entity_id st =
     (if is_job env entity_id then
        job_manager_delete (manager_get Job entity_id st) False st
      else if is_cycle env entity_id then hard_delete env Cycle entity_id st
      else if is_scenario env entity_id then hard_delete env Scenario entity_id st
      else if is_sequence env entity_id then hard_delete env Sequence entity_id st
      else if is_task env entity_id then hard_delete env Task entity_id st
      else if is_data_node env entity_id then manager_delete DataNode entity_id st
      else if is_submission env entity_id then hard_delete env Submission entity_id st
      else (Inl (ModelNotFound ''NOT_DETERMINED'' entity_id), st))"

subsection \<open>The router: \<^verbatim>\<open>set\<close>, \<^verbatim>\<open>submit\<close>, \<^verbatim>\<open>is_deletable\<close>\<close>

definition isinstance :: "pyval \<Rightarrow> kind \<Rightarrow> bool" where
  "isinstance x k = (case x of Ent k' _ \<Rightarrow> k' = k | _ \<Rightarrow> False)"

definition str_startswith :: "pyval \<Rightarrow> string \<Rightarrow> bool" where
  \<comment> \<open>\<^verbatim>\<open>isinstance(entity, str) and entity.startswith(prefix)\<close>\<close>
  "str_startswith x p = (case x of PyStr s \<Rightarrow> startswith s p | _ \<Rightarrow> False)"

text \<open>
  \<^verbatim>\<open>set\<close> returns what the manager's \<^verbatim>\<open>_set\<close> returns, which is \<^verbatim>\<open>None\<close>, and falls off
  its end, returning \<^verbatim>\<open>None\<close>, when no \<^verbatim>\<open>isinstance\<close> test holds.
\<close>

definition set_entity :: "pyval \<Rightarrow> state \<Rightarrow> pyval \<times> state" where
  "set_entity entity st =
     (case entity of
        Ent k e \<Rightarrow>
          if k = Cycle then (PyNone, manager_set Cycle e st)
          else if k = Scenario then (PyNone, manager_set Scenario e st)
          else if k = Sequence then (PyNone, manager_set Sequence e st)
          else if k = Task then (PyNone, manager_set Task e st)
          else if k = DataNode then (PyNone, manager_set DataNode e st)
          else if k = Submission then (PyNone, manager_set Submission e st)
          else (PyNone, st)
      | _ \<Rightarrow> (PyNone, st))"

definition submit ::
  "env \<Rightarrow> pyval \<Rightarrow> bool \<Rightarrow> bool \<Rightarrow> nat option \<Rightarrow> (string \<times> string) list \<Rightarrow> state \<Rightarrow> pyval outcome"
where
  "submit env entity force wait timeout properties st =
     (let st' = st\<lparr>log := log st @ warn_no_core_service env
                  ''The submitted entity will not be executed until the Core service is running.'' st\<rparr>
      in case entity of
           Ent k e \<Rightarrow>
             if k = Scenario then manager_submit env Scenario e force wait timeout properties st'
             else if k = Sequence then manager_submit env Sequence e force wait timeout properties st'
             else if k = Task then manager_submit env Task e force wait timeout properties st'
             else (Inr PyNone, st')
         | _ \<Rightarrow> (Inr PyNone, st'))"

definition is_deletable :: "env \<Rightarrow> state \<Rightarrow> pyval \<Rightarrow> bool" where
  "is_deletable env st entity =
     (if isinstance entity Job then manager_is_deletable env Job entity st
      else if str_startswith entity (ID_PREFIX env Job) then manager_is_deletable env Job entity st
      else if isinstance entity Scenario then manager_is_deletable env Scenario entity st
      else if str_startswith entity (ID_PREFIX env Scenario)
        then manager_is_deletable env Scenario entity st
      else if isinstance entity Submission then manager_is_deletable env Submission entity st
      else if str_startswith entity (ID_PREFIX env Submission)
        then manager_is_deletable env Submission entity st
      else True)"

subsection \<open>Version cleanup: \<^verbatim>\<open>clean_all_entities\<close>\<close>

definition get_production_versions :: "state \<Rightarrow> string list" where
  \<comment> \<open>Modelled from the spec: the version manager's \<^verbatim>\<open>_get_production_versions\<close> is not in
      the sources; it gives the versions marked production.\<close>
  "get_production_versions st = production_versions st"

definition version_manager_delete :: "string \<Rightarrow> state \<Rightarrow> state" where
  \<comment> \<open>Modelled from the spec: the version manager's \<^verbatim>\<open>_delete\<close> is not in the sources; it
      removes the bookkeeping entry of the version.\<close>
  "version_manager_delete v st = st\<lparr>versions := removeAll v (versions st)\<rparr>"

definition delete_production_version :: "string \<Rightarrow> state \<Rightarrow> unit outcome" where
  \<comment> \<open>Modelled from the spec: the version manager's \<^verbatim>\<open>_delete_production_version\<close> is not in
      the sources; it clears the production marker that points at the version, and raises
      \<^verbatim>\<open>VersionIsNotProductionVersion\<close>, the exception its caller catches, when there is none.\<close>
  "delete_production_version v st =
     (if v \<in> set (production_versions st)
      then (Inr (), st\<lparr>production_versions := removeAll v (production_versions st)\<rparr>)
      else (Inl (VersionIsNotProductionVersion v), st))"

definition clean_all_entities :: "env \<Rightarrow> string \<Rightarrow> state \<Rightarrow> bool outcome" where
  "clean_all_entities env version_number st =
     (case replace_version_number env st version_number of
        Inl message \<Rightarrow>
          (Inr False,
           st\<lparr>log := log st @
             [message @ '' Abort cleaning the entities of version '' @ version_number @ ''.'']\<rparr>)
      | Inr version_number' \<Rightarrow>
          if version_number' \<in> set (get_production_versions st) then
            (Inr False,
             st\<lparr>log := log st @
               [''Abort cleaning the entities of version '' @ version_number' @
                ''. A production version can not be deleted.'']\<rparr>)
          else
            (let st1 = delete_by_version env Job version_number' st;
                 st2 = delete_by_version env Submission version_number' st1;
                 st3 = delete_by_version env Scenario version_number' st2;
                 st4 = delete_by_version env Sequence version_number' st3;
                 st5 = delete_by_version env Task version_number' st4;
                 st6 = delete_by_version env DataNode version_number' st5;
                 st7 = version_manager_delete version_number' st6
             in (case delete_production_version version_number' st7 of
                   (Inl (VersionIsNotProductionVersion _), st8) \<Rightarrow> (Inr True, st8)
                 | (Inl err, st8) \<Rightarrow> (Inl err, st8)
                 | (Inr _, st8) \<Rightarrow> (Inr True, st8))))"

text \<open>
  What the spec says of a bulk delete, as a condition on the parameter: it deletes every
  record of its kind that belongs to the version, and, being a delete, it adds no record
  to any store and changes none.
\<close>

definition bulk_delete_ok :: "env \<Rightarrow> bool" where
  "bulk_delete_ok env =
     (\<forall>k v st.
        (\<forall>i e. stores (delete_by_version env k v st) k i = Some e \<longrightarrow> version e \<noteq> v) \<and>
        (\<forall>k' i e. stores (delete_by_version env k v st) k' i = Some e \<longrightarrow>
                   stores st k' i = Some e))"

subsection \<open>Export: \<^verbatim>\<open>export_scenario\<close>\<close>

text \<open>
  \<^verbatim>\<open>folder_path\<close> is a \<^verbatim>\<open>str\<close> or a \<^verbatim>\<open>pathlib.Path\<close>; Python's \<^verbatim>\<open>==\<close> never equates
  the two, and the storage folder of the configuration is a \<^verbatim>\<open>str\<close>.
\<close>

datatype path = StrPath string | PurePath string

fun path_str :: "path \<Rightarrow> string" where
  "path_str (StrPath p) = p"
| "path_str (PurePath p) = p"



definition write_record :: "exported \<Rightarrow> path \<Rightarrow> state \<Rightarrow> state" where
  "write_record r p st =
     st\<lparr>folders := (folders st)(path_str p \<mapsto>
                      (case folders st (path_str p) of None \<Rightarrow> [] | Some rs \<Rightarrow> rs) @ [r])\<rparr>"

definition manager_export :: "kind \<Rightarrow> string \<Rightarrow> path \<Rightarrow> state \<Rightarrow> state" where
  \<comment> \<open>Modelled from the spec: the managers' \<^verbatim>\<open>_export\<close> is not in the sources; an export
      writes one record per exported entity into the target folder. The payload of a data
      node (\<^verbatim>\<open>include_data\<close>) is not part of the model.\<close>
  "manager_export k i p st = write_record (EntityRecord k i) p st"

definition version_manager_export :: "string \<Rightarrow> path \<Rightarrow> state \<Rightarrow> state" where
  \<comment> \<open>Modelled from the spec: the version manager's \<^verbatim>\<open>_export\<close> is not in the sources; it
      writes the record of the version into the target folder.\<close>
  "version_manager_export v p st = write_record (VersionRecord v) p st"

definition export_records :: "entity_ids \<Rightarrow> string \<Rightarrow> path \<Rightarrow> state \<Rightarrow> state" where
  \<comment> \<open>the seven \<^verbatim>\<open>for\<close> loops of \<^verbatim>\<open>export_scenario\<close> and the export of the version\<close>
  "export_records ids v p st =
     (let st1 = fold (\<lambda>i. manager_export DataNode i p) (data_node_ids ids) st;
          st2 = fold (\<lambda>i. manager_export Task i p) (task_ids ids) st1;
          st3 = fold (\<lambda>i. manager_export Sequence i p) (sequence_ids ids) st2;
          st4 = fold (\<lambda>i. manager_export Cycle i p) (cycle_ids ids) st3;
          st5 = fold (\<lambda>i. manager_export Scenario i p) (scenario_ids ids) st4;
          st6 = fold (\<lambda>i. manager_export Job i p) (job_ids ids) st5;
          st7 = fold (\<lambda>i. manager_export Submission i p) (submission_ids ids) st6
      in version_manager_export v p st7)"





subsection \<open>Ancestors: \<^verbatim>\<open>get_parents\<close>\<close>

text \<open>
  A Python \<^verbatim>\<open>dict\<close> of sets, as \<^verbatim>\<open>get_parents\<close> builds it: the keys in insertion order,
  each with the list of its members, which \<open>set_add\<close> keeps free of duplicates.
\<close>

type_synonym parent_dict = "(string \<times> (kind \<times> entity) list) list"

definition set_add :: "'a \<Rightarrow> 'a list \<Rightarrow> 'a list" where
  \<comment> \<open>\<^verbatim>\<open>s.add(x)\<close>\<close>
  "set_add x xs = (if x \<in> set xs then xs else xs @ [x])"

definition set_update :: "'a list \<Rightarrow> 'a list \<Rightarrow> 'a list" where
  \<comment> \<open>\<^verbatim>\<open>s.update(t)\<close>\<close>
  "set_update xs ys = fold set_add ys xs"

definition dict_store :: "parent_dict \<Rightarrow> string \<Rightarrow> (kind \<times> entity) list \<Rightarrow> parent_dict" where
  \<comment> \<open>\<^verbatim>\<open>d[k] = v\<close>\<close>
  "dict_store d k v =
     (if k \<in> fst ` set d then map (\<lambda>(k', v'). if k' = k then (k', v) else (k', v')) d
      else d @ [(k, v)])"

definition dict_get :: "parent_dict \<Rightarrow> string \<Rightarrow> (kind \<times> entity) list" where
  \<comment> \<open>\<^verbatim>\<open>d.get(k, [])\<close>\<close>
  "dict_get d k = (case map_of d k of None \<Rightarrow> [] | Some v \<Rightarrow> v)"

fun update_parent_dict :: "parent_dict \<Rightarrow> parent_dict \<Rightarrow> parent_dict" where
  "update_parent_dict [] parent_dict = parent_dict"
| "update_parent_dict ((k, value) # parents_set) parent_dict =
     update_parent_dict parents_set
       (case map_of parent_dict k of
          Some old \<Rightarrow> dict_store parent_dict k (set_update old value)
        | None \<Rightarrow> dict_store parent_dict k value)"

text \<open>
  The first loop of \<^verbatim>\<open>get_parents\<close>, over \<^verbatim>\<open>entity.parent_ids\<close>. \<^verbatim>\<open>get\<close> may raise, and
  it returns \<^verbatim>\<open>None\<close> for an identifier without a record; reading \<^verbatim>\<open>_MANAGER_NAME\<close> from
  \<^verbatim>\<open>None\<close> raises \<^verbatim>\<open>AttributeError\<close>.
\<close>

fun collect_parents :: "env \<Rightarrow> state \<Rightarrow> string list \<Rightarrow> parent_dict \<Rightarrow> error + parent_dict" where
  "collect_parents env st [] current_parent_dict = Inr current_parent_dict"
| "collect_parents env st (parent # rest) current_parent_dict =
     (case get env st parent of
        Inl err \<Rightarrow> Inl err
      | Inr (Ent k e) \<Rightarrow>
          collect_parents env st rest
            (case map_of current_parent_dict (MANAGER_NAME env k) of
               Some members \<Rightarrow>
                 dict_store current_parent_dict (MANAGER_NAME env k) (set_add (k, e) members)
             | None \<Rightarrow> dict_store current_parent_dict (MANAGER_NAME env k) [(k, e)])
      | Inr _ \<Rightarrow> Inl AttributeError)"

text \<open>
  \<^verbatim>\<open>for parent in parent_dict.get(key, []): get_parents(parent, parent_dict)\<close>. The loop
  walks the members the set had when it started; the body works on the caller's dictionary
  (a dictionary that has the key is not empty, so \<^verbatim>\<open>parent_dict or {}\<close> keeps it). Python
  raises \<^verbatim>\<open>RuntimeError\<close> when the set it iterates has changed size at the next step.
  \<open>None\<close> is a body that did not return.
\<close>

fun for_each_parent ::
  "(kind \<times> entity \<Rightarrow> parent_dict \<Rightarrow> (error + parent_dict) option) \<Rightarrow> string \<Rightarrow> nat \<Rightarrow>
   (kind \<times> entity) list \<Rightarrow> parent_dict \<Rightarrow> (error + parent_dict) option"
where
  "for_each_parent body key size0 [] parent_dict = Some (Inr parent_dict)"
| "for_each_parent body key size0 (parent # rest) parent_dict =
     (case body parent parent_dict of
        None \<Rightarrow> None
      | Some (Inl err) \<Rightarrow> Some (Inl err)
      | Some (Inr parent_dict') \<Rightarrow>
          if length (dict_get parent_dict' key) \<noteq> size0 then Some (Inl RuntimeError)
          else for_each_parent body key size0 rest parent_dict')"

definition entity_or_get :: "env \<Rightarrow> state \<Rightarrow> pyval \<Rightarrow> error + pyval" where
  \<comment> \<open>\<^verbatim>\<open>if isinstance(entity, str): entity = get(entity)\<close>\<close>
  "entity_or_get env st entity = (case entity of PyStr s \<Rightarrow> get env st s | _ \<Rightarrow> Inr entity)"

text \<open>
  \<^verbatim>\<open>get_parents\<close>, with the depth of nested calls it may use as its first argument:
  \<open>None\<close> says that the recursion did not come back within that depth.
\<close>

fun get_parents ::
  "nat \<Rightarrow> env \<Rightarrow> state \<Rightarrow> pyval \<Rightarrow> parent_dict option \<Rightarrow> (error + parent_dict) option"
where
  "get_parents 0 env st entity parent_dict = None"
| "get_parents (Suc n) env st entity0 parent_dict0 =
     (case entity_or_get env st entity0 of
        Inl err \<Rightarrow> Some (Inl err)
      | Inr entity \<Rightarrow>
          (let parent_dict = (case parent_dict0 of None \<Rightarrow> [] | Some d \<Rightarrow> d)
           in if isinstance entity Scenario \<or> isinstance entity Cycle then Some (Inr parent_dict)
             else
               (case entity of
                 Ent k e \<Rightarrow>
                   (case parent_ids e of
                      None \<Rightarrow> Some (Inl AttributeError)
                    | Some ids \<Rightarrow>
                        (case collect_parents env st ids [] of
                           Inl err \<Rightarrow> Some (Inl err)
                         | Inr current_parent_dict \<Rightarrow>
                             if k = Sequence then
                               Some (Inr (update_parent_dict current_parent_dict parent_dict))
                             else if k = Task then
                               (let parent_dict' = update_parent_dict current_parent_dict parent_dict
                                in for_each_parent
                                     (\<lambda>parent d. get_parents n env st (Ent (fst parent) (snd parent)) (Some d))
                                     ''scenario'' (length (dict_get parent_dict' ''scenario''))
                                     (dict_get parent_dict' ''scenario'') parent_dict')
                             else if k = DataNode then
                               (let parent_dict' = update_parent_dict current_parent_dict parent_dict
                                in for_each_parent
                                     (\<lambda>parent d. get_parents n env st (Ent (fst parent) (snd parent)) (Some d))
                                     ''task'' (length (dict_get parent_dict' ''task''))
                                     (dict_get parent_dict' ''task'') parent_dict')
                             else Some (Inr parent_dict)))
               | _ \<Rightarrow> Some (Inl AttributeError))))"

text \<open>
  What the walk relies on and the sources at hand do not show: among the
  \<^verbatim>\<open>_MANAGER_NAME\<close> constants, \<^verbatim>\<open>"scenario"\<close> is the name of Scenario and of no other
  class, and \<^verbatim>\<open>"task"\<close> the name of Task and of no other class. A dictionary is well
  kinded when the members under \<^verbatim>\<open>"scenario"\<close> are scenarios and those under \<^verbatim>\<open>"task"\<close>
  are tasks; the empty dictionary of a first call is.
\<close>

definition names_ok :: "env \<Rightarrow> bool" where
  "names_ok env =
     (\<forall>k\<in>set priority.
        (MANAGER_NAME env k = ''scenario'' \<longleftrightarrow> k = Scenario) \<and>
        (MANAGER_NAME env k = ''task'' \<longleftrightarrow> k = Task))"

definition kinds_ok :: "parent_dict \<Rightarrow> bool" where
  "kinds_ok d =
     ((\<forall>x\<in>set (dict_get d ''scenario''). fst x = Scenario) \<and>
      (\<forall>x\<in>set (dict_get d ''task''). fst x = Task))"

text \<open>
  The parents of an entity are stored: it has parent identifiers, and each of them resolves
  to one of the kinds \<open>ks\<close> and has a record in the store of that kind.
\<close>

definition parents_stored :: "env \<Rightarrow> state \<Rightarrow> kind list \<Rightarrow> entity \<Rightarrow> bool" where
  "parents_stored env st ks e =
     (case parent_ids e of
        None \<Rightarrow> False
      | Some ids \<Rightarrow> \<forall>p\<in>set ids. \<exists>k\<in>set ks. kind_of env p = Some k \<and> stores st k p \<noteq> None)"

subsection \<open>Notions for reasoning about the walk\<close>

definition dict_of :: "parent_dict option \<Rightarrow> parent_dict" where
  \<comment> \<open>\<^verbatim>\<open>parent_dict or {}\<close>\<close>
  "dict_of pd = (case pd of None \<Rightarrow> [] | Some d \<Rightarrow> d)"

definition all_distinct :: "parent_dict \<Rightarrow> bool" where
  \<comment> \<open>no member is listed twice under a key\<close>
  "all_distinct d = (\<forall>key. distinct (dict_get d key))"

definition named :: "env \<Rightarrow> parent_dict \<Rightarrow> bool" where
  \<comment> \<open>every member is listed under the manager name of its class\<close>
  "named env d = (\<forall>key. \<forall>x\<in>set (dict_get d key). key = MANAGER_NAME env (fst x))"

definition add_parent :: "env \<Rightarrow> parent_dict \<Rightarrow> kind \<Rightarrow> entity \<Rightarrow> parent_dict" where
  \<comment> \<open>the body of the first loop, once \<^verbatim>\<open>get\<close> has returned an entity\<close>
  "add_parent env cur k e =
     (case map_of cur (MANAGER_NAME env k) of
        Some members \<Rightarrow> dict_store cur (MANAGER_NAME env k) (set_add (k, e) members)
      | None \<Rightarrow> dict_store cur (MANAGER_NAME env k) [(k, e)])"

definition extends :: "parent_dict \<Rightarrow> parent_dict \<Rightarrow> bool" where
  \<comment> \<open>the second dictionary has every member of the first\<close>
  "extends d d' = (\<forall>key. set (dict_get d key) \<subseteq> set (dict_get d' key))"

definition parents_in :: "env \<Rightarrow> state \<Rightarrow> kind \<times> entity \<Rightarrow> parent_dict \<Rightarrow> bool" where
  \<comment> \<open>the dictionary has every parent of the entity that \<^verbatim>\<open>get\<close> finds\<close>
  "parents_in env st p d =
     (\<forall>ids q k e. parent_ids (snd p) = Some ids \<longrightarrow> q \<in> set ids \<longrightarrow>
        get env st q = Inr (Ent k e) \<longrightarrow> (k, e) \<in> set (dict_get d (MANAGER_NAME env k)))"

subsection \<open>A concrete environment and concrete states\<close>

text \<open>An environment with the prefixes and names of the entity classes, for evaluation.\<close>

definition sample_env :: env where
  "sample_env =
     \<lparr>ID_PREFIX = (\<lambda>k. case k of Job \<Rightarrow> ''JOB'' | Cycle \<Rightarrow> ''CYCLE'' | Scenario \<Rightarrow> ''SCENARIO''
                     | Sequence \<Rightarrow> ''SEQUENCE'' | Task \<Rightarrow> ''TASK'' | DataNode \<Rightarrow> ''DATANODE''
                     | Submission \<Rightarrow> ''SUBMISSION''),
      MANAGER_NAME = (\<lambda>k. case k of Job \<Rightarrow> ''job'' | Cycle \<Rightarrow> ''cycle'' | Scenario \<Rightarrow> ''scenario''
                     | Sequence \<Rightarrow> ''sequence'' | Task \<Rightarrow> ''task'' | DataNode \<Rightarrow> ''data''
                     | Submission \<Rightarrow> ''submission''),
      taipy_storage_folder = ''.data'',
      replace_version_number =
        (\<lambda>st v. if v \<in> set (versions st) then Inr v else Inl ''Version does not exist.''),
      hard_delete = (\<lambda>k i st. manager_delete k i st),
      delete_by_version =
        (\<lambda>k v st. st\<lparr>stores := (stores st)(k := (\<lambda>i. case stores st k i of
                                                        None \<Rightarrow> None
                                                      | Some e \<Rightarrow> if version e = v then None
                                                                  else Some e))\<rparr>),
      manager_is_deletable = (\<lambda>k x st. False),
      manager_submit = (\<lambda>k e force wait timeout properties st. (Inr PyNone, st)),
      get_children_entity_ids = (\<lambda>st e. \<lparr>data_node_ids = [], task_ids = [], sequence_ids = [],
         cycle_ids = [], scenario_ids = [], job_ids = [], submission_ids = []\<rparr>),
      warn_no_core_service = (\<lambda>message st. [])\<rparr>"

definition empty_state :: state where
  "empty_state = \<lparr>stores = (\<lambda>k. Map.empty), versions = [], production_versions = [],
     folders = Map.empty, log = []\<rparr>"

definition mk_entity :: "string \<Rightarrow> string \<Rightarrow> string list option \<Rightarrow> entity" where
  "mk_entity i v ps = \<lparr>eid = i, version = v, parent_ids = ps, cycle = None, is_finished = True\<rparr>"

definition cleanup_state :: state where
  "cleanup_state =
     empty_state\<lparr>stores := (\<lambda>k. Map.empty)
        (Cycle := [''CYCLE_c1'' \<mapsto> mk_entity ''CYCLE_c1'' ''1.0'' None],
         Scenario := [''SCENARIO_s1'' \<mapsto> mk_entity ''SCENARIO_s1'' ''1.0'' None,
                      ''SCENARIO_s2'' \<mapsto> mk_entity ''SCENARIO_s2'' ''2.0'' None]),
       versions := [''1.0'', ''2.0''], production_versions := [''2.0'']\<rparr>"

text \<open>
  A scenario \<open>s1\<close> with one task \<open>t1\<close> that produces the data node \<open>d1\<close>, a finished job,
  and a folder \<open>out\<close> that exists already.
\<close>

definition graph_state :: state where
  "graph_state =
     empty_state\<lparr>stores := (\<lambda>k. Map.empty)
        (Scenario := [''SCENARIO_s1'' \<mapsto> mk_entity ''SCENARIO_s1'' ''1.0'' None],
         Task := [''TASK_t1'' \<mapsto> mk_entity ''TASK_t1'' ''1.0'' (Some [''SCENARIO_s1''])],
         DataNode := [''DATANODE_d1'' \<mapsto> mk_entity ''DATANODE_d1'' ''1.0'' (Some [''TASK_t1''])],
         Job := [''JOB_j1'' \<mapsto> mk_entity ''JOB_j1'' ''1.0'' None]),
       versions := [''1.0''], folders := [''out'' \<mapsto> [VersionRecord ''0.9'']]\<rparr>"

section \<open>Kind resolution\<close>

lemma kind_of_chain:
  "kind_of env s =
     (if is_job env s then Some Job
      else if is_cycle env s then Some Cycle
      else if is_scenario env s then Some Scenario
      else if is_sequence env s then Some Sequence
      else if is_task env s then Some Task
      else if is_data_node env s then Some DataNode
      else if is_submission env s then Some Submission
      else None)"
  by (simp add: kind_of_def priority_def is_job_def is_cycle_def is_scenario_def
      is_sequence_def is_task_def is_data_node_def is_submission_def)

lemma find_Some_split:
  "find P xs = Some x \<longleftrightarrow> (\<exists>pre post. xs = pre @ x # post \<and> P x \<and> (\<forall>y\<in>set pre. \<not> P y))"
proof (induction xs)
  case Nil
  then show ?case by simp
next
  case (Cons a xs)
  show ?case
  proof (cases "P a")
    case True
    have "(\<exists>pre post. a # xs = pre @ x # post \<and> P x \<and> (\<forall>y\<in>set pre. \<not> P y)) \<longleftrightarrow> a = x"
    proof
      assume "\<exists>pre post. a # xs = pre @ x # post \<and> P x \<and> (\<forall>y\<in>set pre. \<not> P y)"
      then obtain pre post where h: "a # xs = pre @ x # post" "\<forall>y\<in>set pre. \<not> P y" by blast
      show "a = x"
      proof (cases pre)
        case Nil
        with h show ?thesis by simp
      next
        case (Cons b pre')
        with h True show ?thesis by auto
      qed
    next
      assume "a = x"
      with True have "a # xs = [] @ x # xs \<and> P x \<and> (\<forall>y\<in>set []. \<not> P y)" by simp
      then show "\<exists>pre post. a # xs = pre @ x # post \<and> P x \<and> (\<forall>y\<in>set pre. \<not> P y)" by blast
    qed
    with True show ?thesis by simp
  next
    case False
    have "(\<exists>pre post. a # xs = pre @ x # post \<and> P x \<and> (\<forall>y\<in>set pre. \<not> P y))
       \<longleftrightarrow> (\<exists>pre post. xs = pre @ x # post \<and> P x \<and> (\<forall>y\<in>set pre. \<not> P y))"
    proof
      assume "\<exists>pre post. a # xs = pre @ x # post \<and> P x \<and> (\<forall>y\<in>set pre. \<not> P y)"
      then obtain pre post where h: "a # xs = pre @ x # post" "P x" "\<forall>y\<in>set pre. \<not> P y" by blast
      show "\<exists>pre post. xs = pre @ x # post \<and> P x \<and> (\<forall>y\<in>set pre. \<not> P y)"
      proof (cases pre)
        case Nil
        with h False show ?thesis by simp
      next
        case (Cons b pre')
        with h have "xs = pre' @ x # post \<and> P x \<and> (\<forall>y\<in>set pre'. \<not> P y)" by simp
        then show ?thesis by blast
      qed
    next
      assume "\<exists>pre post. xs = pre @ x # post \<and> P x \<and> (\<forall>y\<in>set pre. \<not> P y)"
      then obtain pre post where h: "xs = pre @ x # post" "P x" "\<forall>y\<in>set pre. \<not> P y" by blast
      with False have "a # xs = (a # pre) @ x # post \<and> P x \<and> (\<forall>y\<in>set (a # pre). \<not> P y)" by simp
      then show "\<exists>pre post. a # xs = pre @ x # post \<and> P x \<and> (\<forall>y\<in>set pre. \<not> P y)" by blast
    qed
    with False Cons.IH show ?thesis by simp
  qed
qed

lemma kind_of_None: "kind_of env s = None \<longleftrightarrow> (\<forall>k. \<not> startswith s (ID_PREFIX env k))"
proof -
  have "set priority = UNIV"
  proof -
    have "k \<in> set priority" for k by (cases k) (simp_all add: priority_def)
    then show ?thesis by blast
  qed
  then show ?thesis by (simp add: kind_of_def find_None_iff)
qed

text \<open>
  Claim C2. For every identifier string, \<^verbatim>\<open>get\<close>, \<^verbatim>\<open>exists\<close> and \<^verbatim>\<open>delete\<close> resolve the
  kind by trying the prefixes in the fixed order Job, Cycle, Scenario, Sequence, Task,
  DataNode, Submission: the kind selected is the first of that order whose prefix starts the
  identifier, so it is one kind or none, and all three functions address the manager of that
  kind. When no prefix matches, each of the three raises \<^verbatim>\<open>ModelNotFound\<close> with
  \<^verbatim>\<open>NOT_DETERMINED\<close>, and \<^verbatim>\<open>delete\<close> leaves the state as it was.
\<close>

theorem kind_resolution:
  "(kind_of env i = None \<longleftrightarrow> (\<forall>k. \<not> startswith i (ID_PREFIX env k))) \<and>
   (\<forall>k. kind_of env i = Some k \<longleftrightarrow>
      (\<exists>pre post. priority = pre @ k # post \<and> startswith i (ID_PREFIX env k) \<and>
         (\<forall>k'\<in>set pre. \<not> startswith i (ID_PREFIX env k')))) \<and>
   (case kind_of env i of
      None \<Rightarrow>
        get env st i = Inl (ModelNotFound ''NOT_DETERMINED'' i) \<and>
        exists env st i = Inl (ModelNotFound ''NOT_DETERMINED'' i) \<and>
        delete env i st = (Inl (ModelNotFound ''NOT_DETERMINED'' i), st)
    | Some k \<Rightarrow>
        get env st i = Inr (manager_get k i st) \<and>
        exists env st i = Inr (manager_exists k i st) \<and>
        delete env i st =
          (if k = Job then job_manager_delete (manager_get Job i st) False st
           else if k = DataNode then manager_delete DataNode i st
           else hard_delete env k i st))"
proof (intro conjI allI)
  show "kind_of env i = None \<longleftrightarrow> (\<forall>k. \<not> startswith i (ID_PREFIX env k))"
    by (rule kind_of_None)
next
  fix k
  show "kind_of env i = Some k \<longleftrightarrow>
      (\<exists>pre post. priority = pre @ k # post \<and> startswith i (ID_PREFIX env k) \<and>
         (\<forall>k'\<in>set pre. \<not> startswith i (ID_PREFIX env k')))"
    unfolding kind_of_def by (rule find_Some_split)
next
  show "case kind_of env i of
      None \<Rightarrow>
        get env st i = Inl (ModelNotFound ''NOT_DETERMINED'' i) \<and>
        exists env st i = Inl (ModelNotFound ''NOT_DETERMINED'' i) \<and>
        delete env i st = (Inl (ModelNotFound ''NOT_DETERMINED'' i), st)
    | Some k \<Rightarrow>
        get env st i = Inr (manager_get k i st) \<and>
        exists env st i = Inr (manager_exists k i st) \<and>
        delete env i st =
          (if k = Job then job_manager_delete (manager_get Job i st) False st
           else if k = DataNode then manager_delete DataNode i st
           else hard_delete env k i st)"
    by (simp add: kind_of_chain get_def exists_def delete_def)
qed

lemma sample_prefix [simp]:
  "ID_PREFIX sample_env Job = ''JOB''" "ID_PREFIX sample_env Cycle = ''CYCLE''"
  "ID_PREFIX sample_env Scenario = ''SCENARIO''" "ID_PREFIX sample_env Sequence = ''SEQUENCE''"
  "ID_PREFIX sample_env Task = ''TASK''" "ID_PREFIX sample_env DataNode = ''DATANODE''"
  "ID_PREFIX sample_env Submission = ''SUBMISSION''"
  by (simp_all add: sample_env_def)

lemma kind_of_sample: "kind_of sample_env ''TASK_t1'' = Some Task" "kind_of sample_env ''xyz'' = None"
  by (simp_all add: kind_of_chain is_job_def is_cycle_def is_scenario_def
      is_sequence_def is_task_def is_data_node_def is_submission_def startswith_def)

theorem kind_resolution_witness:
  "kind_of sample_env ''TASK_t1'' = Some Task \<and>
   get sample_env empty_state ''TASK_t1'' = Inr PyNone \<and>
   exists sample_env empty_state ''TASK_t1'' = Inr False \<and>
   kind_of sample_env ''xyz'' = None \<and>
   get sample_env empty_state ''xyz'' = Inl (ModelNotFound ''NOT_DETERMINED'' ''xyz'') \<and>
   exists sample_env empty_state ''xyz'' = Inl (ModelNotFound ''NOT_DETERMINED'' ''xyz'') \<and>
   delete sample_env ''xyz'' empty_state = (Inl (ModelNotFound ''NOT_DETERMINED'' ''xyz''), empty_state)"
proof -
  note t = kind_resolution [of sample_env "''TASK_t1''" empty_state]
  note u = kind_resolution [of sample_env "''xyz''" empty_state]
  have k: "kind_of sample_env ''TASK_t1'' = Some Task" by (rule kind_of_sample)
  have n: "kind_of sample_env ''xyz'' = None" by (rule kind_of_sample)
  from t k have g: "get sample_env empty_state ''TASK_t1'' = Inr (manager_get Task ''TASK_t1'' empty_state)"
    and e: "exists sample_env empty_state ''TASK_t1'' = Inr (manager_exists Task ''TASK_t1'' empty_state)"
    by simp_all
  from u n have d: "get sample_env empty_state ''xyz'' = Inl (ModelNotFound ''NOT_DETERMINED'' ''xyz'')"
    "exists sample_env empty_state ''xyz'' = Inl (ModelNotFound ''NOT_DETERMINED'' ''xyz'')"
    "delete sample_env ''xyz'' empty_state
      = (Inl (ModelNotFound ''NOT_DETERMINED'' ''xyz''), empty_state)"
    by simp_all
  from g have g': "get sample_env empty_state ''TASK_t1'' = Inr PyNone"
    by (simp add: manager_get_def empty_state_def)
  from e have e': "exists sample_env empty_state ''TASK_t1'' = Inr False"
    by (simp add: manager_exists_def empty_state_def)
  from k g' e' n d show ?thesis by blast
qed

lemma set_priority: "set priority = UNIV"
proof -
  have "k \<in> set priority" for k by (cases k) (simp_all add: priority_def)
  then show ?thesis by blast
qed

lemma startswith_two:
  assumes "startswith s p" "startswith s q"
  shows "startswith p q \<or> startswith q p"
proof (cases "length p \<le> length q")
  case True
  from assms have "take (length p) (take (length q) s) = take (length p) q"
    by (simp add: startswith_def)
  with True assms(1) have "take (length p) q = p" by (simp add: startswith_def min_def)
  then show ?thesis by (simp add: startswith_def)
next
  case False
  from assms have "take (length q) (take (length p) s) = take (length q) p"
    by (simp add: startswith_def)
  with False assms(2) have "take (length q) p = q" by (simp add: startswith_def min_def)
  then show ?thesis by (simp add: startswith_def)
qed

lemma prefix_free_unambiguous:
  assumes "prefix_free env" "startswith s (ID_PREFIX env k)" "startswith s (ID_PREFIX env k')"
  shows "k = k'"
proof (rule ccontr)
  assume ne: "k \<noteq> k'"
  from assms(2,3) have "startswith (ID_PREFIX env k) (ID_PREFIX env k') \<or>
      startswith (ID_PREFIX env k') (ID_PREFIX env k)" by (rule startswith_two)
  moreover from assms(1) ne have "\<not> startswith (ID_PREFIX env k) (ID_PREFIX env k')"
    and "\<not> startswith (ID_PREFIX env k') (ID_PREFIX env k)"
    by (auto simp: prefix_free_def set_priority)
  ultimately show False by blast
qed

lemma kind_of_startswith: "kind_of env s = Some k \<Longrightarrow> startswith s (ID_PREFIX env k)"
  by (auto simp: kind_of_def dest: find_Some_iff[THEN iffD1])

lemma kind_of_unique:
  assumes "prefix_free env" "kind_of env s = Some k" "startswith s (ID_PREFIX env k')"
  shows "k' = k"
  using prefix_free_unambiguous [OF assms(1) assms(3) kind_of_startswith [OF assms(2)]] .

lemma prefix_free_sample: "prefix_free sample_env"
  by (simp add: prefix_free_def priority_def sample_env_def startswith_def)

section \<open>\<^verbatim>\<open>submit\<close> and \<^verbatim>\<open>set\<close> on arguments they do not dispatch\<close>

text \<open>
  Claim C9. For every argument that is not an instance of Scenario, Sequence or Task (a
  string identifier, \<^verbatim>\<open>None\<close>, an entity of another class, any other object),
  \<^verbatim>\<open>submit\<close> calls no manager and returns \<^verbatim>\<open>None\<close>, not the \<^verbatim>\<open>Submission\<close> its
  signature declares: the state it leaves is the one it found, but for the warnings of its
  decorator.
\<close>

theorem submit_returns_None:
  assumes "\<not> isinstance entity Scenario" "\<not> isinstance entity Sequence" "\<not> isinstance entity Task"
  shows "submit env entity force wait timeout properties st =
           (Inr PyNone,
            st\<lparr>log := log st @ warn_no_core_service env
               ''The submitted entity will not be executed until the Core service is running.'' st\<rparr>) \<and>
         stores (snd (submit env entity force wait timeout properties st)) = stores st"
  using assms by (cases entity) (simp_all add: submit_def isinstance_def Let_def)

theorem submit_returns_None_witness:
  "\<not> isinstance (PyStr ''SCENARIO_s1'') Scenario \<and> \<not> isinstance (PyStr ''SCENARIO_s1'') Sequence \<and>
   \<not> isinstance (PyStr ''SCENARIO_s1'') Task \<and>
   submit sample_env (PyStr ''SCENARIO_s1'') False False None [] empty_state = (Inr PyNone, empty_state)"
proof -
  have h: "\<not> isinstance (PyStr ''SCENARIO_s1'') Scenario" "\<not> isinstance (PyStr ''SCENARIO_s1'') Sequence"
    "\<not> isinstance (PyStr ''SCENARIO_s1'') Task"
    by (simp_all add: isinstance_def)
  from submit_returns_None [OF h, of sample_env False False None "[]" empty_state]
  have "submit sample_env (PyStr ''SCENARIO_s1'') False False None [] empty_state = (Inr PyNone, empty_state)"
    by (simp add: sample_env_def empty_state_def)
  with h show ?thesis by simp
qed

text \<open>
  Claim C10. \<^verbatim>\<open>set\<close> hands a Submission to the submission manager's \<^verbatim>\<open>_set\<close>, which
  stores it under its identifier, although the annotation of the parameter does not list
  Submission. For every argument that is an instance of none of Cycle, Scenario, Sequence,
  Task, DataNode, Submission, \<^verbatim>\<open>set\<close> returns \<^verbatim>\<open>None\<close>, raises nothing and leaves the
  state as it was.
\<close>

theorem set_entity_dispatch:
  "set_entity (Ent Submission e) st = (PyNone, manager_set Submission e st) \<and>
   stores (manager_set Submission e st) Submission (eid e) = Some e \<and>
   ((\<forall>k\<in>{Cycle, Scenario, Sequence, Task, DataNode, Submission}. \<not> isinstance x k) \<longrightarrow>
      set_entity x st = (PyNone, st))"
  by (cases x) (simp_all add: set_entity_def manager_set_def isinstance_def)

theorem set_entity_dispatch_witness:
  "set_entity (Ent Submission (mk_entity ''SUBMISSION_1'' ''1.0'' None)) empty_state
     = (PyNone, manager_set Submission (mk_entity ''SUBMISSION_1'' ''1.0'' None) empty_state) \<and>
   stores (manager_set Submission (mk_entity ''SUBMISSION_1'' ''1.0'' None) empty_state)
     Submission ''SUBMISSION_1'' = Some (mk_entity ''SUBMISSION_1'' ''1.0'' None) \<and>
   \<not> isinstance (Ent Job (mk_entity ''JOB_1'' ''1.0'' None)) Cycle \<and>
   set_entity (Ent Job (mk_entity ''JOB_1'' ''1.0'' None)) empty_state = (PyNone, empty_state)"
proof -
  note a = set_entity_dispatch [of "mk_entity ''SUBMISSION_1'' ''1.0'' None" empty_state
      "Ent Job (mk_entity ''JOB_1'' ''1.0'' None)"]
  have i: "\<forall>k\<in>{Cycle, Scenario, Sequence, Task, DataNode, Submission}.
      \<not> isinstance (Ent Job (mk_entity ''JOB_1'' ''1.0'' None)) k"
    by (simp add: isinstance_def)
  have e: "eid (mk_entity ''SUBMISSION_1'' ''1.0'' None) = ''SUBMISSION_1''" by (simp add: mk_entity_def)
  from a i e show ?thesis by (simp add: isinstance_def)
qed

section \<open>\<^verbatim>\<open>is_deletable\<close>\<close>

text \<open>
  Claim C7. When no prefix starts with another one, \<^verbatim>\<open>is_deletable\<close> is \<^verbatim>\<open>True\<close> for every
  DataNode, Task, Sequence or Cycle, given as an entity or as an identifier of that kind
  (and for every other value that is not a Job, a Scenario or a Submission); an entity or
  identifier of kind Job, Scenario or Submission gets the answer of the manager of its kind.
\<close>

theorem is_deletable_default:
  assumes "prefix_free env"
  shows "(k \<in> {DataNode, Task, Sequence, Cycle} \<longrightarrow> is_deletable env st (Ent k e)) \<and>
         (kind_of env s = Some k \<and> k \<in> {DataNode, Task, Sequence, Cycle} \<longrightarrow>
            is_deletable env st (PyStr s)) \<and>
         (kind_of env s = None \<longrightarrow> is_deletable env st (PyStr s)) \<and>
         is_deletable env st PyNone \<and> is_deletable env st PyOther \<and>
         (k \<in> {Job, Scenario, Submission} \<longrightarrow>
            is_deletable env st (Ent k e) = manager_is_deletable env k (Ent k e) st) \<and>
         (kind_of env s = Some k \<and> k \<in> {Job, Scenario, Submission} \<longrightarrow>
            is_deletable env st (PyStr s) = manager_is_deletable env k (PyStr s) st)"
proof (intro conjI impI)
  show "is_deletable env st (Ent k e)" if "k \<in> {DataNode, Task, Sequence, Cycle}"
    using that by (auto simp: is_deletable_def isinstance_def str_startswith_def)
  show "is_deletable env st (PyStr s)" if "kind_of env s = Some k \<and> k \<in> {DataNode, Task, Sequence, Cycle}"
  proof -
    from that have ks: "kind_of env s = Some k" and k: "k \<noteq> Job" "k \<noteq> Scenario" "k \<noteq> Submission" by auto
    from kind_of_unique [OF assms ks] k
    have "\<not> startswith s (ID_PREFIX env Job)" "\<not> startswith s (ID_PREFIX env Scenario)"
      "\<not> startswith s (ID_PREFIX env Submission)" by (blast+)
    then show ?thesis by (simp add: is_deletable_def isinstance_def str_startswith_def)
  qed
  show "is_deletable env st (PyStr s)" if "kind_of env s = None"
  proof -
    from that have "\<not> startswith s (ID_PREFIX env k')" for k'
      by (simp add: kind_of_def find_None_iff set_priority)
    then show ?thesis by (simp add: is_deletable_def isinstance_def str_startswith_def)
  qed
  show "is_deletable env st PyNone" "is_deletable env st PyOther"
    by (simp_all add: is_deletable_def isinstance_def str_startswith_def)
  show "is_deletable env st (Ent k e) = manager_is_deletable env k (Ent k e) st"
    if "k \<in> {Job, Scenario, Submission}"
    using that by (auto simp: is_deletable_def isinstance_def str_startswith_def)
  show "is_deletable env st (PyStr s) = manager_is_deletable env k (PyStr s) st"
    if "kind_of env s = Some k \<and> k \<in> {Job, Scenario, Submission}"
  proof -
    from that have ks: "kind_of env s = Some k" and k: "k = Job \<or> k = Scenario \<or> k = Submission" by auto
    note u = kind_of_unique [OF assms ks]
    note p = kind_of_startswith [OF ks]
    from k show ?thesis
    proof (elim disjE)
      assume "k = Job"
      with p show ?thesis by (simp add: is_deletable_def isinstance_def str_startswith_def)
    next
      assume h: "k = Scenario"
      with u have "\<not> startswith s (ID_PREFIX env Job)" by blast
      with p h show ?thesis by (simp add: is_deletable_def isinstance_def str_startswith_def)
    next
      assume h: "k = Submission"
      with u have "\<not> startswith s (ID_PREFIX env Job)" "\<not> startswith s (ID_PREFIX env Scenario)"
        by (blast+)
      with p h show ?thesis by (simp add: is_deletable_def isinstance_def str_startswith_def)
    qed
  qed
qed


lemma sample_kind_of:
  "kind_of sample_env ''DATANODE_d1'' = Some DataNode"
  "kind_of sample_env ''JOB_j1'' = Some Job"
  "kind_of sample_env ''TASK_t1'' = Some Task"
  "kind_of sample_env ''SCENARIO_s1'' = Some Scenario"
  "kind_of sample_env ''CYCLE_c1'' = Some Cycle"
  by (simp_all add: kind_of_def priority_def sample_env_def startswith_def)

theorem is_deletable_default_witness:
  "prefix_free sample_env \<and>
   is_deletable sample_env empty_state (Ent DataNode (mk_entity ''DATANODE_d1'' ''1.0'' (Some []))) \<and>
   kind_of sample_env ''DATANODE_d1'' = Some DataNode \<and>
   is_deletable sample_env empty_state (PyStr ''DATANODE_d1'') \<and>
   kind_of sample_env ''JOB_j1'' = Some Job \<and>
   is_deletable sample_env empty_state (PyStr ''JOB_j1'') =
     manager_is_deletable sample_env Job (PyStr ''JOB_j1'') empty_state"
proof -
  note d = is_deletable_default [OF prefix_free_sample, of DataNode empty_state
      "mk_entity ''DATANODE_d1'' ''1.0'' (Some [])" "''DATANODE_d1''"]
  note j = is_deletable_default [OF prefix_free_sample, of Job empty_state
      "mk_entity ''JOB_j1'' ''1.0'' None" "''JOB_j1''"]
  from d have 1: "is_deletable sample_env empty_state (Ent DataNode (mk_entity ''DATANODE_d1'' ''1.0'' (Some [])))"
    by simp
  from d sample_kind_of(1) have 2: "is_deletable sample_env empty_state (PyStr ''DATANODE_d1'')"
    by simp
  from j sample_kind_of(2) have 3: "is_deletable sample_env empty_state (PyStr ''JOB_j1'') =
     manager_is_deletable sample_env Job (PyStr ''JOB_j1'') empty_state"
    by simp
  from prefix_free_sample 1 2 3 sample_kind_of(1,2) show ?thesis by blast
qed

section \<open>\<^verbatim>\<open>clean_all_entities\<close>\<close>

text \<open>
  Once the version is resolved and is not a production version, \<^verbatim>\<open>clean_all_entities\<close>
  runs the bulk deletes of the job, submission, scenario, sequence, task and data managers,
  in this order, and makes no call to the cycle manager. Whatever those bulk deletes are, as
  long as each deletes the records of its kind and none adds a record, the call returns
  \<^verbatim>\<open>True\<close>, no record of the version is left in the six stores, no record has appeared in
  any store, and the version is neither known nor marked production afterwards. What
  becomes of the cycles is what the six bulk deletes do to them.
\<close>

lemma bulk_delete_keeps:
  assumes "bulk_delete_ok env"
  shows "stores (delete_by_version env k v st) k' i = Some e \<Longrightarrow> stores st k' i = Some e"
  using assms unfolding bulk_delete_ok_def by blast

lemma bulk_delete_cleans:
  assumes "bulk_delete_ok env"
  shows "stores (delete_by_version env k v st) k i = Some e \<Longrightarrow> version e \<noteq> v"
  using assms unfolding bulk_delete_ok_def by blast

lemma clean_all_entities_cleans:
  assumes ok: "bulk_delete_ok env"
    and r: "replace_version_number env st v = Inr w"
    and p: "w \<notin> set (production_versions st)"
  shows "fst (clean_all_entities env v st) = Inr True"
    and "k \<noteq> Cycle \<Longrightarrow> stores (snd (clean_all_entities env v st)) k i = Some e \<Longrightarrow> version e \<noteq> w"
    and "stores (snd (clean_all_entities env v st)) k i = Some e \<Longrightarrow> stores st k i = Some e"
    and "w \<notin> set (versions (snd (clean_all_entities env v st)))"
    and "w \<notin> set (production_versions (snd (clean_all_entities env v st)))"
proof -
  define st1 where "st1 = delete_by_version env Job w st"
  define st2 where "st2 = delete_by_version env Submission w st1"
  define st3 where "st3 = delete_by_version env Scenario w st2"
  define st4 where "st4 = delete_by_version env Sequence w st3"
  define st5 where "st5 = delete_by_version env Task w st4"
  define st6 where "st6 = delete_by_version env DataNode w st5"
  define st7 where "st7 = version_manager_delete w st6"
  define st8 where "st8 = snd (delete_production_version w st7)"
  have c: "clean_all_entities env v st = (Inr True, st8)"
    using r p
    by (simp add: clean_all_entities_def get_production_versions_def Let_def
        delete_production_version_def st8_def st7_def st6_def st5_def st4_def st3_def st2_def
        st1_def)
  have s8: "stores st8 = stores st6"
    by (simp add: st8_def st7_def delete_production_version_def version_manager_delete_def)
  note keep = bulk_delete_keeps [OF ok]
  note clean = bulk_delete_cleans [OF ok]
  have k6: "stores st6 k' j = Some x \<Longrightarrow> stores st5 k' j = Some x" for k' j x
    unfolding st6_def by (rule keep)
  have k5: "stores st5 k' j = Some x \<Longrightarrow> stores st4 k' j = Some x" for k' j x
    unfolding st5_def by (rule keep)
  have k4: "stores st4 k' j = Some x \<Longrightarrow> stores st3 k' j = Some x" for k' j x
    unfolding st4_def by (rule keep)
  have k3: "stores st3 k' j = Some x \<Longrightarrow> stores st2 k' j = Some x" for k' j x
    unfolding st3_def by (rule keep)
  have k2: "stores st2 k' j = Some x \<Longrightarrow> stores st1 k' j = Some x" for k' j x
    unfolding st2_def by (rule keep)
  have k1: "stores st1 k' j = Some x \<Longrightarrow> stores st k' j = Some x" for k' j x
    unfolding st1_def by (rule keep)
  show "fst (clean_all_entities env v st) = Inr True" by (simp add: c)
  show "stores (snd (clean_all_entities env v st)) k i = Some e \<Longrightarrow> stores st k i = Some e"
    using k1 k2 k3 k4 k5 k6 by (simp add: c s8)
  show "version e \<noteq> w"
    if "k \<noteq> Cycle" "stores (snd (clean_all_entities env v st)) k i = Some e"
  proof -
    from that(2) have e6: "stores st6 k i = Some e" by (simp add: c s8)
    then have e5: "stores st5 k i = Some e" by (rule k6)
    then have e4: "stores st4 k i = Some e" by (rule k5)
    then have e3: "stores st3 k i = Some e" by (rule k4)
    then have e2: "stores st2 k i = Some e" by (rule k3)
    then have e1: "stores st1 k i = Some e" by (rule k2)
    from that(1) show ?thesis
    proof (cases k)
      case Job
      with e1 show ?thesis unfolding st1_def using clean by blast
    next
      case Submission
      with e2 show ?thesis unfolding st2_def using clean by blast
    next
      case Scenario
      with e3 show ?thesis unfolding st3_def using clean by blast
    next
      case Sequence
      with e4 show ?thesis unfolding st4_def using clean by blast
    next
      case Task
      with e5 show ?thesis unfolding st5_def using clean by blast
    next
      case DataNode
      with e6 show ?thesis unfolding st6_def using clean by blast
    qed simp
  qed
  show "w \<notin> set (versions (snd (clean_all_entities env v st)))"
    by (simp add: c st8_def st7_def delete_production_version_def version_manager_delete_def)
  show "w \<notin> set (production_versions (snd (clean_all_entities env v st)))"
    by (simp add: c st8_def delete_production_version_def)
qed

text \<open>The condition can be met: the bulk delete of \<open>sample_env\<close> meets it.\<close>

lemma bulk_delete_ok_sample: "bulk_delete_ok sample_env"
  by (auto simp: bulk_delete_ok_def sample_env_def split: option.splits if_splits)

text \<open>
  Claim C3. When the version cannot be resolved (\<^verbatim>\<open>NonExistingVersion\<close>), or resolves to a
  production version, \<^verbatim>\<open>clean_all_entities\<close> returns \<^verbatim>\<open>False\<close> without raising; no store,
  no version entry, no production marker and no folder changes, \<^verbatim>\<open>exists\<close> answers as
  before on every identifier, and exactly one warning is appended to the log.
\<close>

theorem clean_all_entities_aborts:
  assumes "(\<exists>message. replace_version_number env st v = Inl message) \<or>
           (\<exists>w. replace_version_number env st v = Inr w \<and> w \<in> set (production_versions st))"
  shows "fst (clean_all_entities env v st) = Inr False \<and>
         stores (snd (clean_all_entities env v st)) = stores st \<and>
         versions (snd (clean_all_entities env v st)) = versions st \<and>
         production_versions (snd (clean_all_entities env v st)) = production_versions st \<and>
         folders (snd (clean_all_entities env v st)) = folders st \<and>
         (\<exists>warning. log (snd (clean_all_entities env v st)) = log st @ [warning]) \<and>
         (\<forall>i. exists env (snd (clean_all_entities env v st)) i = exists env st i)"
proof -
  from assms obtain warning where c: "clean_all_entities env v st = (Inr False, st\<lparr>log := log st @ [warning]\<rparr>)"
    by (auto simp: clean_all_entities_def get_production_versions_def)
  have "exists env (st\<lparr>log := log st @ [warning]\<rparr>) i = exists env st i" for i
    by (simp add: exists_def manager_exists_def)
  with c show ?thesis by simp
qed

theorem clean_all_entities_aborts_witness:
  "replace_version_number sample_env cleanup_state ''2.0'' = Inr ''2.0'' \<and>
   ''2.0'' \<in> set (production_versions cleanup_state) \<and>
   fst (clean_all_entities sample_env ''2.0'' cleanup_state) = Inr False \<and>
   stores (snd (clean_all_entities sample_env ''2.0'' cleanup_state)) = stores cleanup_state \<and>
   exists sample_env (snd (clean_all_entities sample_env ''2.0'' cleanup_state)) ''SCENARIO_s2'' = Inr True \<and>
   replace_version_number sample_env cleanup_state ''3.0'' = Inl ''Version does not exist.'' \<and>
   fst (clean_all_entities sample_env ''3.0'' cleanup_state) = Inr False \<and>
   stores (snd (clean_all_entities sample_env ''3.0'' cleanup_state)) = stores cleanup_state"
proof -
  have r2: "replace_version_number sample_env cleanup_state ''2.0'' = Inr ''2.0''"
    and p2: "''2.0'' \<in> set (production_versions cleanup_state)"
    and r3: "replace_version_number sample_env cleanup_state ''3.0'' = Inl ''Version does not exist.''"
    by (simp_all add: sample_env_def cleanup_state_def empty_state_def)
  have e: "exists sample_env cleanup_state ''SCENARIO_s2'' = Inr True"
    by (simp add: exists_def is_job_def is_cycle_def is_scenario_def startswith_def sample_env_def
        manager_exists_def cleanup_state_def empty_state_def)
  from r2 p2 have h2: "(\<exists>message. replace_version_number sample_env cleanup_state ''2.0'' = Inl message) \<or>
     (\<exists>w. replace_version_number sample_env cleanup_state ''2.0'' = Inr w \<and>
          w \<in> set (production_versions cleanup_state))" by blast
  from r3 have h3: "(\<exists>message. replace_version_number sample_env cleanup_state ''3.0'' = Inl message) \<or>
     (\<exists>w. replace_version_number sample_env cleanup_state ''3.0'' = Inr w \<and>
          w \<in> set (production_versions cleanup_state))" by blast
  from clean_all_entities_aborts [OF h2] clean_all_entities_aborts [OF h3] r2 p2 r3 e
  show ?thesis by simp
qed

section \<open>\<^verbatim>\<open>delete\<close>\<close>

text \<open>
  Claim C4. For an identifier whose kind resolves, \<^verbatim>\<open>delete\<close> dispatches on the kind. For
  a Cycle, Scenario, Sequence, Task or Submission it is the \<^verbatim>\<open>_hard_delete\<close> of the manager
  of that kind. For a DataNode it is the data manager's plain \<^verbatim>\<open>_delete\<close>: the record
  under the identifier is gone and every other record of every store is as before. For a
  Job it is the job manager's \<^verbatim>\<open>_delete\<close> of the job that \<^verbatim>\<open>_get\<close> returned: no store of
  another kind changes, a finished job is removed and no other job is, and a job that is
  not finished makes the call fail with the state unchanged.
\<close>

theorem delete_dispatch:
  assumes "kind_of env i = Some k"
  shows "(k \<in> {Cycle, Scenario, Sequence, Task, Submission} \<longrightarrow>
            delete env i st = hard_delete env k i st) \<and>
         (k = DataNode \<longrightarrow>
            delete env i st = manager_delete DataNode i st \<and>
            (\<forall>k' j. (k', j) \<noteq> (DataNode, i) \<longrightarrow>
               stores (snd (delete env i st)) k' j = stores st k' j) \<and>
            stores (snd (delete env i st)) DataNode i = None \<and>
            (fst (delete env i st) = Inr () \<longleftrightarrow> stores st DataNode i \<noteq> None)) \<and>
         (k = Job \<longrightarrow>
            delete env i st = job_manager_delete (manager_get Job i st) False st \<and>
            (\<forall>k' j. k' \<noteq> Job \<longrightarrow> stores (snd (delete env i st)) k' j = stores st k' j) \<and>
            (\<forall>e. stores st Job i = Some e \<and> eid e = i \<longrightarrow>
               (\<forall>j. j \<noteq> i \<longrightarrow> stores (snd (delete env i st)) Job j = stores st Job j) \<and>
               (is_finished e \<longrightarrow>
                  fst (delete env i st) = Inr () \<and> stores (snd (delete env i st)) Job i = None) \<and>
               (\<not> is_finished e \<longrightarrow>
                  delete env i st = (Inl (JobNotDeletedException i), st))) \<and>
            (stores st Job i = None \<longrightarrow>
               fst (delete env i st) \<noteq> Inr () \<and> snd (delete env i st) = st))"
proof -
  from assms have c:
    "(if is_job env i then Some Job
      else if is_cycle env i then Some Cycle
      else if is_scenario env i then Some Scenario
      else if is_sequence env i then Some Sequence
      else if is_task env i then Some Task
      else if is_data_node env i then Some DataNode
      else if is_submission env i then Some Submission
      else None) = Some k"
    by (simp add: kind_of_chain)
  have hard: "delete env i st = hard_delete env k i st"
    if "k \<in> {Cycle, Scenario, Sequence, Task, Submission}"
    using c that by (auto simp: delete_def split: if_splits)
  have dn: "delete env i st = manager_delete DataNode i st" if "k = DataNode"
    using c that by (auto simp: delete_def split: if_splits)
  have job: "delete env i st = job_manager_delete (manager_get Job i st) False st" if "k = Job"
    using c that by (auto simp: delete_def split: if_splits)
  have dn_sem:
    "(\<forall>k' j. (k', j) \<noteq> (DataNode, i) \<longrightarrow>
        stores (snd (manager_delete DataNode i st)) k' j = stores st k' j) \<and>
     stores (snd (manager_delete DataNode i st)) DataNode i = None \<and>
     (fst (manager_delete DataNode i st) = Inr () \<longleftrightarrow> stores st DataNode i \<noteq> None)"
    by (cases "stores st DataNode i") (auto simp: manager_delete_def)
  have job_other: "\<forall>k' j. k' \<noteq> Job \<longrightarrow>
      stores (snd (job_manager_delete (manager_get Job i st) False st)) k' j = stores st k' j"
    by (cases "stores st Job i")
      (auto simp: job_manager_delete_def manager_get_def manager_delete_def split: option.splits)
  have job_some: "(\<forall>j. j \<noteq> i \<longrightarrow>
        stores (snd (job_manager_delete (manager_get Job i st) False st)) Job j = stores st Job j) \<and>
      (is_finished e \<longrightarrow>
         fst (job_manager_delete (manager_get Job i st) False st) = Inr () \<and>
         stores (snd (job_manager_delete (manager_get Job i st) False st)) Job i = None) \<and>
      (\<not> is_finished e \<longrightarrow>
         job_manager_delete (manager_get Job i st) False st = (Inl (JobNotDeletedException i), st))"
    if "stores st Job i = Some e \<and> eid e = i" for e
    using that by (auto simp: job_manager_delete_def manager_get_def manager_delete_def)
  have job_none: "fst (job_manager_delete (manager_get Job i st) False st) \<noteq> Inr () \<and>
      snd (job_manager_delete (manager_get Job i st) False st) = st"
    if "stores st Job i = None"
    using that by (simp add: job_manager_delete_def manager_get_def)
  have A: "k \<in> {Cycle, Scenario, Sequence, Task, Submission} \<longrightarrow>
            delete env i st = hard_delete env k i st"
    using hard by blast
  have B: "k = DataNode \<longrightarrow>
            delete env i st = manager_delete DataNode i st \<and>
            (\<forall>k' j. (k', j) \<noteq> (DataNode, i) \<longrightarrow>
               stores (snd (delete env i st)) k' j = stores st k' j) \<and>
            stores (snd (delete env i st)) DataNode i = None \<and>
            (fst (delete env i st) = Inr () \<longleftrightarrow> stores st DataNode i \<noteq> None)"
  proof
    assume "k = DataNode"
    note d = dn [OF this]
    show "delete env i st = manager_delete DataNode i st \<and>
            (\<forall>k' j. (k', j) \<noteq> (DataNode, i) \<longrightarrow>
               stores (snd (delete env i st)) k' j = stores st k' j) \<and>
            stores (snd (delete env i st)) DataNode i = None \<and>
            (fst (delete env i st) = Inr () \<longleftrightarrow> stores st DataNode i \<noteq> None)"
      unfolding d using dn_sem by blast
  qed
  have C: "k = Job \<longrightarrow>
            delete env i st = job_manager_delete (manager_get Job i st) False st \<and>
            (\<forall>k' j. k' \<noteq> Job \<longrightarrow> stores (snd (delete env i st)) k' j = stores st k' j) \<and>
            (\<forall>e. stores st Job i = Some e \<and> eid e = i \<longrightarrow>
               (\<forall>j. j \<noteq> i \<longrightarrow> stores (snd (delete env i st)) Job j = stores st Job j) \<and>
               (is_finished e \<longrightarrow>
                  fst (delete env i st) = Inr () \<and> stores (snd (delete env i st)) Job i = None) \<and>
               (\<not> is_finished e \<longrightarrow>
                  delete env i st = (Inl (JobNotDeletedException i), st))) \<and>
            (stores st Job i = None \<longrightarrow>
               fst (delete env i st) \<noteq> Inr () \<and> snd (delete env i st) = st)"
  proof
    assume "k = Job"
    note d = job [OF this]
    show "delete env i st = job_manager_delete (manager_get Job i st) False st \<and>
            (\<forall>k' j. k' \<noteq> Job \<longrightarrow> stores (snd (delete env i st)) k' j = stores st k' j) \<and>
            (\<forall>e. stores st Job i = Some e \<and> eid e = i \<longrightarrow>
               (\<forall>j. j \<noteq> i \<longrightarrow> stores (snd (delete env i st)) Job j = stores st Job j) \<and>
               (is_finished e \<longrightarrow>
                  fst (delete env i st) = Inr () \<and> stores (snd (delete env i st)) Job i = None) \<and>
               (\<not> is_finished e \<longrightarrow>
                  delete env i st = (Inl (JobNotDeletedException i), st))) \<and>
            (stores st Job i = None \<longrightarrow>
               fst (delete env i st) \<noteq> Inr () \<and> snd (delete env i st) = st)"
      unfolding d using job_other job_some job_none by blast
  qed
  from A B C show ?thesis by blast
qed


theorem delete_dispatch_witness:
  "kind_of sample_env ''DATANODE_d1'' = Some DataNode \<and>
   delete sample_env ''DATANODE_d1'' graph_state = manager_delete DataNode ''DATANODE_d1'' graph_state \<and>
   fst (delete sample_env ''DATANODE_d1'' graph_state) = Inr () \<and>
   stores (snd (delete sample_env ''DATANODE_d1'' graph_state)) DataNode ''DATANODE_d1'' = None \<and>
   stores (snd (delete sample_env ''DATANODE_d1'' graph_state)) Task ''TASK_t1''
     = Some (mk_entity ''TASK_t1'' ''1.0'' (Some [''SCENARIO_s1''])) \<and>
   kind_of sample_env ''JOB_j1'' = Some Job \<and>
   fst (delete sample_env ''JOB_j1'' graph_state) = Inr () \<and>
   stores (snd (delete sample_env ''JOB_j1'' graph_state)) Job ''JOB_j1'' = None \<and>
   kind_of sample_env ''TASK_t1'' = Some Task \<and>
   delete sample_env ''TASK_t1'' graph_state = hard_delete sample_env Task ''TASK_t1'' graph_state"
proof -
  note d = delete_dispatch [OF sample_kind_of(1), of graph_state]
  note j = delete_dispatch [OF sample_kind_of(2), of graph_state]
  note t = delete_dispatch [OF sample_kind_of(3), of graph_state]
  have sd: "stores graph_state DataNode ''DATANODE_d1'' \<noteq> None"
    and st: "stores graph_state Task ''TASK_t1'' = Some (mk_entity ''TASK_t1'' ''1.0'' (Some [''SCENARIO_s1'']))"
    and sj: "stores graph_state Job ''JOB_j1'' = Some (mk_entity ''JOB_j1'' ''1.0'' None)"
    by (simp_all add: graph_state_def empty_state_def)
  have ej: "eid (mk_entity ''JOB_j1'' ''1.0'' None) = ''JOB_j1''"
    "is_finished (mk_entity ''JOB_j1'' ''1.0'' None)"
    by (simp_all add: mk_entity_def)
  from d have 1: "delete sample_env ''DATANODE_d1'' graph_state = manager_delete DataNode ''DATANODE_d1'' graph_state"
    by blast
  from d have 2: "stores (snd (delete sample_env ''DATANODE_d1'' graph_state)) DataNode ''DATANODE_d1'' = None"
    by blast
  from d sd have 3: "fst (delete sample_env ''DATANODE_d1'' graph_state) = Inr ()" by blast
  from d have "(Task, ''TASK_t1'') \<noteq> (DataNode, ''DATANODE_d1'') \<longrightarrow>
     stores (snd (delete sample_env ''DATANODE_d1'' graph_state)) Task ''TASK_t1''
     = stores graph_state Task ''TASK_t1''" by blast
  with st have 4: "stores (snd (delete sample_env ''DATANODE_d1'' graph_state)) Task ''TASK_t1''
     = Some (mk_entity ''TASK_t1'' ''1.0'' (Some [''SCENARIO_s1'']))" by simp
  from j sj ej have 5: "fst (delete sample_env ''JOB_j1'' graph_state) = Inr ()"
    by blast
  from j sj ej have 6: "stores (snd (delete sample_env ''JOB_j1'' graph_state)) Job ''JOB_j1'' = None"
    by blast
  from t have 7: "delete sample_env ''TASK_t1'' graph_state = hard_delete sample_env Task ''TASK_t1'' graph_state"
    by blast
  from sample_kind_of(1,2,3) 1 2 3 4 5 6 7 show ?thesis by blast
qed

section \<open>\<^verbatim>\<open>export_scenario\<close>\<close>

lemma write_record_fields:
  "stores (write_record r p st) = stores st"
  "versions (write_record r p st) = versions st"
  "production_versions (write_record r p st) = production_versions st"
  "log (write_record r p st) = log st"
  "q \<noteq> path_str p \<Longrightarrow> folders (write_record r p st) q = folders st q"
  by (simp_all add: write_record_def)



lemma stores_fold_export:
  "stores (fold (\<lambda>i. manager_export k i p) ids st) = stores st"
  by (induction ids arbitrary: st) (simp_all add: manager_export_def write_record_fields)


lemma stores_export_records: "stores (export_records ids v p st) = stores st"
  by (simp add: export_records_def Let_def version_manager_export_def stores_fold_export
      write_record_fields)




section \<open>\<^verbatim>\<open>get_parents\<close>\<close>

subsection \<open>Dictionaries of sets\<close>

lemma map_of_map_store_other:
  "x \<noteq> k \<Longrightarrow>
   map_of (map (\<lambda>(k', v'). if k' = k then (k', v) else (k', v')) d) x = map_of d x"
proof (induction d)
  case Nil
  show ?case by simp
next
  case (Cons a d)
  obtain k' v' where a: "a = (k', v')" by (cases a)
  show ?case using Cons by (simp add: a)
qed

lemma map_of_map_store_same:
  "k \<in> fst ` set d \<Longrightarrow>
   map_of (map (\<lambda>(k', v'). if k' = k then (k', v) else (k', v')) d) k = Some v"
proof (induction d)
  case Nil
  then show ?case by simp
next
  case (Cons a d)
  obtain k' v' where a: "a = (k', v')" by (cases a)
  show ?case
  proof (cases "k' = k")
    case True
    then show ?thesis by (simp add: a)
  next
    case False
    with Cons.prems a have "k \<in> fst ` set d" by auto
    with Cons.IH False show ?thesis by (simp add: a)
  qed
qed

lemma map_of_dict_store: "map_of (dict_store d k v) = (map_of d)(k \<mapsto> v)"
proof (cases "k \<in> fst ` set d")
  case True
  then show ?thesis
    by (simp add: dict_store_def fun_eq_iff map_of_map_store_other map_of_map_store_same)
next
  case False
  then have "map_of d k = None" by (simp add: map_of_eq_None_iff)
  then have "map_of (d @ [(k, v)]) x = ((map_of d)(k \<mapsto> v)) x" for x
    by (cases "map_of d x") (auto simp: map_add_def)
  with False show ?thesis
    by (simp add: dict_store_def fun_eq_iff)
qed

lemma dict_get_dict_store:
  "dict_get (dict_store d k v) k' = (if k' = k then v else dict_get d k')"
  by (simp add: dict_get_def map_of_dict_store)

lemma map_fst_map_store:
  "map fst (map (\<lambda>(k', v'). if k' = k then (k', v) else (k', v')) d) = map fst d"
proof (induction d)
  case Nil
  show ?case by simp
next
  case (Cons a d)
  obtain k' v' where a: "a = (k', v')" by (cases a)
  show ?case using Cons.IH by (simp add: a)
qed

lemma distinct_keys_dict_store:
  "distinct (map fst d) \<Longrightarrow> distinct (map fst (dict_store d k v))"
  by (simp add: dict_store_def map_fst_map_store del: map_map)

lemma set_set_add: "set (set_add x xs) = insert x (set xs)"
  by (auto simp: set_add_def)

lemma distinct_set_add: "distinct xs \<Longrightarrow> distinct (set_add x xs)"
  by (simp add: set_add_def)

lemma set_set_update: "set (set_update xs ys) = set xs \<union> set ys"
  unfolding set_update_def by (induction ys arbitrary: xs) (auto simp: set_set_add)

lemma distinct_set_update: "distinct xs \<Longrightarrow> distinct (set_update xs ys)"
  unfolding set_update_def by (induction ys arbitrary: xs) (auto simp: distinct_set_add)


text \<open>\<^verbatim>\<open>update_parent_dict\<close>, read through \<open>map_of\<close>.\<close>

lemma map_of_update_parent_dict:
  "distinct (map fst cur) \<Longrightarrow>
   map_of (update_parent_dict cur d) key =
     (case map_of cur key of
        None \<Rightarrow> map_of d key
      | Some v \<Rightarrow> Some (case map_of d key of None \<Rightarrow> v | Some old \<Rightarrow> set_update old v))"
proof (induction cur arbitrary: d)
  case Nil
  show ?case by simp
next
  case (Cons a cur)
  obtain k v where a: "a = (k, v)" by (cases a)
  define d1 where "d1 = (case map_of d k of
          Some old \<Rightarrow> dict_store d k (set_update old v)
        | None \<Rightarrow> dict_store d k v)"
  have d1: "map_of d1 = (map_of d)(k \<mapsto> (case map_of d k of None \<Rightarrow> v | Some old \<Rightarrow> set_update old v))"
    by (cases "map_of d k") (simp_all add: d1_def map_of_dict_store)
  from Cons.prems a have dist: "distinct (map fst cur)" and nk: "map_of cur k = None"
    by (simp_all add: map_of_eq_None_iff)
  have u: "update_parent_dict (a # cur) d = update_parent_dict cur d1"
    by (simp add: a d1_def)
  have "map_of (update_parent_dict (a # cur) d) key = map_of (update_parent_dict cur d1) key"
    by (simp only: u)
  also have "\<dots> = (case map_of cur key of
        None \<Rightarrow> map_of d1 key
      | Some w \<Rightarrow> Some (case map_of d1 key of None \<Rightarrow> w | Some old \<Rightarrow> set_update old w))"
    by (rule Cons.IH [OF dist])
  also have "\<dots> = (case map_of (a # cur) key of
        None \<Rightarrow> map_of d key
      | Some w \<Rightarrow> Some (case map_of d key of None \<Rightarrow> w | Some old \<Rightarrow> set_update old w))"
  proof (cases "key = k")
    case True
    with nk show ?thesis by (simp add: d1 a)
  next
    case False
    then have "map_of d1 key = map_of d key" by (simp add: d1)
    with False show ?thesis by (cases "map_of cur key") (simp_all add: a)
  qed
  finally show ?case .
qed

lemma dict_get_update_parent_dict:
  "distinct (map fst cur) \<Longrightarrow>
   dict_get (update_parent_dict cur d) key =
     (case map_of cur key of
        None \<Rightarrow> dict_get d key
      | Some v \<Rightarrow> (case map_of d key of None \<Rightarrow> v | Some old \<Rightarrow> set_update old v))"
  by (simp add: dict_get_def map_of_update_parent_dict split: option.splits)

lemma members_update_parent_dict:
  "distinct (map fst cur) \<Longrightarrow>
   set (dict_get (update_parent_dict cur d) key) = set (dict_get d key) \<union> set (dict_get cur key)"
  by (cases "map_of cur key"; cases "map_of d key")
    (simp_all add: map_of_update_parent_dict dict_get_def set_set_update)

lemma all_distinct_update_parent_dict:
  "distinct (map fst cur) \<Longrightarrow> all_distinct cur \<Longrightarrow> all_distinct d \<Longrightarrow>
   all_distinct (update_parent_dict cur d)"
  unfolding all_distinct_def
proof
  fix key
  assume c: "distinct (map fst cur)" and a: "\<forall>key. distinct (dict_get cur key)"
    and b: "\<forall>key. distinct (dict_get d key)"
  from a have a': "distinct (dict_get cur key)" by blast
  from b have b': "distinct (dict_get d key)" by blast
  from a' b' show "distinct (dict_get (update_parent_dict cur d) key)"
    by (auto simp: map_of_update_parent_dict [OF c] dict_get_def distinct_set_update
        split: option.splits)
qed

lemma distinct_keys_update_parent_dict:
  "distinct (map fst d) \<Longrightarrow> distinct (map fst (update_parent_dict cur d))"
proof (induction cur arbitrary: d)
  case Nil
  then show ?case by simp
next
  case (Cons a cur)
  obtain k v where a: "a = (k, v)" by (cases a)
  from Cons.prems show ?case
    by (cases "map_of d k") (simp_all add: a Cons.IH distinct_keys_dict_store)
qed


text \<open>The first loop of \<^verbatim>\<open>get_parents\<close>.\<close>

lemma dict_get_add_parent:
  "dict_get (add_parent env cur k e) key =
     (if key = MANAGER_NAME env k then set_add (k, e) (dict_get cur key) else dict_get cur key)"
  by (cases "map_of cur (MANAGER_NAME env k)")
    (simp_all add: add_parent_def map_of_dict_store dict_get_def set_add_def)

lemma distinct_keys_add_parent:
  "distinct (map fst cur) \<Longrightarrow> distinct (map fst (add_parent env cur k e))"
  by (cases "map_of cur (MANAGER_NAME env k)") (simp_all add: add_parent_def distinct_keys_dict_store)

lemma all_distinct_add_parent: "all_distinct cur \<Longrightarrow> all_distinct (add_parent env cur k e)"
  by (simp add: all_distinct_def dict_get_add_parent distinct_set_add)

lemma named_add_parent: "named env cur \<Longrightarrow> named env (add_parent env cur k e)"
  by (auto simp: named_def dict_get_add_parent set_set_add)

lemma collect_parents_step:
  "get env st p = Inr (Ent k e) \<Longrightarrow>
   collect_parents env st (p # rest) cur = collect_parents env st rest (add_parent env cur k e)"
  by (simp add: add_parent_def)

lemma collect_parents_fail:
  "(\<And>k e. get env st p \<noteq> Inr (Ent k e)) \<Longrightarrow> \<exists>err. collect_parents env st (p # rest) cur = Inl err"
  by (cases "get env st p") (auto split: pyval.splits)

lemma get_cases:
  obtains (err) err where "get env st p = Inl err"
  | (none) "get env st p = Inr PyNone"
  | (ent) k e where "get env st p = Inr (Ent k e)" "kind_of env p = Some k" "stores st k p = Some e"
proof -
  have "(\<exists>err. get env st p = Inl err) \<or> get env st p = Inr PyNone \<or>
        (\<exists>k e. get env st p = Inr (Ent k e) \<and> kind_of env p = Some k \<and> stores st k p = Some e)"
    by (auto simp: get_def kind_of_chain manager_get_def split: option.splits)
  with that show ?thesis by blast
qed

lemma get_stored:
  "kind_of env p = Some k \<Longrightarrow> stores st k p = Some e \<Longrightarrow> get env st p = Inr (Ent k e)"
  by (auto simp: get_def kind_of_chain manager_get_def split: if_splits)

lemma collect_parents_props:
  assumes "collect_parents env st ids cur = Inr cur'"
  shows "(distinct (map fst cur) \<longrightarrow> distinct (map fst cur')) \<and>
         (all_distinct cur \<longrightarrow> all_distinct cur') \<and>
         (named env cur \<longrightarrow> named env cur') \<and>
         (\<forall>key. set (dict_get cur' key) =
            set (dict_get cur key) \<union>
            {x. MANAGER_NAME env (fst x) = key \<and> (\<exists>p\<in>set ids. get env st p = Inr (Ent (fst x) (snd x)))})"
  using assms
proof (induction ids arbitrary: cur)
  case Nil
  then show ?case by simp
next
  case (Cons p rest)
  show ?case
  proof (cases rule: get_cases [of env st p])
    case (err e)
    with Cons.prems show ?thesis by simp
  next
    case none
    with Cons.prems show ?thesis by simp
  next
    case (ent k e)
    from Cons.prems have c: "collect_parents env st rest (add_parent env cur k e) = Inr cur'"
      by (simp only: collect_parents_step [OF ent(1)])
    note ih = Cons.IH [OF c]
    have a: "set (dict_get (add_parent env cur k e) key)
          = set (dict_get cur key) \<union> {x. MANAGER_NAME env (fst x) = key \<and> x = (k, e)}" for key
      by (auto simp: dict_get_add_parent set_set_add)
    have b: "{x. MANAGER_NAME env (fst x) = key \<and>
                (\<exists>q\<in>set (p # rest). get env st q = Inr (Ent (fst x) (snd x)))}
           = {x. MANAGER_NAME env (fst x) = key \<and> x = (k, e)} \<union>
             {x. MANAGER_NAME env (fst x) = key \<and>
                (\<exists>q\<in>set rest. get env st q = Inr (Ent (fst x) (snd x)))}" for key
    proof -
      have "get env st p = Inr (Ent (fst x) (snd x)) \<longleftrightarrow> x = (k, e)" for x
        by (cases x) (auto simp: ent(1))
      then show ?thesis by (simp add: Collect_disj_eq [symmetric] conj_disj_distribL conj_commute)
    qed
    have m: "set (dict_get cur' key) =
            set (dict_get cur key) \<union>
            {x. MANAGER_NAME env (fst x) = key \<and>
                (\<exists>q\<in>set (p # rest). get env st q = Inr (Ent (fst x) (snd x)))}" for key
    proof -
      from ih have "set (dict_get cur' key) =
            set (dict_get (add_parent env cur k e) key) \<union>
            {x. MANAGER_NAME env (fst x) = key \<and>
                (\<exists>q\<in>set rest. get env st q = Inr (Ent (fst x) (snd x)))}" by blast
      then show ?thesis by (simp only: a b Un_assoc)
    qed
    from ih have 1: "distinct (map fst cur) \<longrightarrow> distinct (map fst cur')"
      using distinct_keys_add_parent by blast
    from ih have 2: "all_distinct cur \<longrightarrow> all_distinct cur'"
      using all_distinct_add_parent by blast
    from ih have 3: "named env cur \<longrightarrow> named env cur'"
      using named_add_parent by blast
    from 1 2 3 m show ?thesis by blast
  qed
qed

lemma collect_parents_ok:
  "\<forall>p\<in>set ids. \<exists>k e. get env st p = Inr (Ent k e) \<Longrightarrow>
   \<exists>cur'. collect_parents env st ids cur = Inr cur'"
proof (induction ids arbitrary: cur)
  case Nil
  show ?case by simp
next
  case (Cons p rest)
  from Cons.prems obtain k e where g: "get env st p = Inr (Ent k e)" by auto
  from Cons.prems have "\<forall>p\<in>set rest. \<exists>k e. get env st p = Inr (Ent k e)" by simp
  from Cons.IH [OF this] show ?case by (simp only: collect_parents_step [OF g])
qed

subsection \<open>Unfolding one call\<close>

lemma names_ok_iff:
  assumes "names_ok env"
  shows "MANAGER_NAME env k = ''scenario'' \<longleftrightarrow> k = Scenario"
    and "MANAGER_NAME env k = ''task'' \<longleftrightarrow> k = Task"
proof -
  have "k \<in> set priority" by (cases k) (simp_all add: priority_def)
  with assms show "MANAGER_NAME env k = ''scenario'' \<longleftrightarrow> k = Scenario"
    and "MANAGER_NAME env k = ''task'' \<longleftrightarrow> k = Task"
    unfolding names_ok_def by blast+
qed

lemma entity_or_get_not_str: "entity_or_get env st arg = Inr ent \<Longrightarrow> ent \<noteq> PyStr s"
proof (cases arg)
  case (PyStr p)
  assume "entity_or_get env st arg = Inr ent"
  with PyStr have "get env st p = Inr ent" by (simp add: entity_or_get_def)
  then show ?thesis by (cases rule: get_cases [of env st p]) auto
qed (auto simp: entity_or_get_def)

lemma entity_or_get_idem:
  "entity_or_get env st arg = Inr ent \<Longrightarrow> entity_or_get env st ent = Inr ent"
  using entity_or_get_not_str [of env st arg ent]
  by (cases ent) (auto simp: entity_or_get_def)

lemma get_parents_resolved:
  "entity_or_get env st arg = Inr ent \<Longrightarrow>
   get_parents (Suc n) env st arg pd = get_parents (Suc n) env st ent pd"
  using entity_or_get_idem [of env st arg ent] by simp

lemma get_parents_unresolved:
  "entity_or_get env st arg = Inl err \<Longrightarrow> get_parents (Suc n) env st arg pd = Some (Inl err)"
  by simp

lemma get_parents_terminal:
  "k = Scenario \<or> k = Cycle \<Longrightarrow> get_parents (Suc n) env st (Ent k e) pd = Some (Inr (dict_of pd))"
  by (auto simp: entity_or_get_def isinstance_def dict_of_def)

lemma get_parents_no_parent_ids:
  "k \<noteq> Scenario \<Longrightarrow> k \<noteq> Cycle \<Longrightarrow> parent_ids e = None \<Longrightarrow>
   get_parents (Suc n) env st (Ent k e) pd = Some (Inl AttributeError)"
  by (simp add: entity_or_get_def isinstance_def)

lemma get_parents_collect_error:
  "k \<noteq> Scenario \<Longrightarrow> k \<noteq> Cycle \<Longrightarrow> parent_ids e = Some ids \<Longrightarrow>
   collect_parents env st ids [] = Inl err \<Longrightarrow>
   get_parents (Suc n) env st (Ent k e) pd = Some (Inl err)"
  by (simp add: entity_or_get_def isinstance_def)

lemma get_parents_Sequence:
  "parent_ids e = Some ids \<Longrightarrow> collect_parents env st ids [] = Inr cur \<Longrightarrow>
   get_parents (Suc n) env st (Ent Sequence e) pd = Some (Inr (update_parent_dict cur (dict_of pd)))"
  by (simp add: entity_or_get_def isinstance_def dict_of_def)

lemma get_parents_Job_Submission:
  "k = Job \<or> k = Submission \<Longrightarrow> parent_ids e = Some ids \<Longrightarrow>
   collect_parents env st ids [] = Inr cur \<Longrightarrow>
   get_parents (Suc n) env st (Ent k e) pd = Some (Inr (dict_of pd))"
  by (auto simp: entity_or_get_def isinstance_def dict_of_def)

lemma get_parents_Task_unfold:
  "parent_ids e = Some ids \<Longrightarrow> collect_parents env st ids [] = Inr cur \<Longrightarrow>
   get_parents (Suc n) env st (Ent Task e) pd =
     for_each_parent (\<lambda>parent d. get_parents n env st (Ent (fst parent) (snd parent)) (Some d))
       ''scenario'' (length (dict_get (update_parent_dict cur (dict_of pd)) ''scenario''))
       (dict_get (update_parent_dict cur (dict_of pd)) ''scenario'')
       (update_parent_dict cur (dict_of pd))"
  by (simp add: entity_or_get_def isinstance_def dict_of_def Let_def)

lemma get_parents_DataNode_unfold:
  "parent_ids e = Some ids \<Longrightarrow> collect_parents env st ids [] = Inr cur \<Longrightarrow>
   get_parents (Suc n) env st (Ent DataNode e) pd =
     for_each_parent (\<lambda>parent d. get_parents n env st (Ent (fst parent) (snd parent)) (Some d))
       ''task'' (length (dict_get (update_parent_dict cur (dict_of pd)) ''task''))
       (dict_get (update_parent_dict cur (dict_of pd)) ''task'')
       (update_parent_dict cur (dict_of pd))"
  by (simp add: entity_or_get_def isinstance_def dict_of_def Let_def)

lemma get_parents_not_entity:
  "x = PyNone \<or> x = PyOther \<Longrightarrow> get_parents (Suc n) env st x pd = Some (Inl AttributeError)"
  by (auto simp: entity_or_get_def isinstance_def)

declare get_parents.simps [simp del]

lemma for_each_parent_noop:
  assumes "\<And>p. p \<in> set xs \<Longrightarrow> body p d = Some (Inr d)"
  shows "for_each_parent body key (length (dict_get d key)) xs d = Some (Inr d)"
  using assms by (induction xs) simp_all

lemma for_each_parent_total:
  assumes "\<And>p d. p \<in> set xs \<Longrightarrow> I d \<Longrightarrow> \<exists>r. body p d = Some r \<and> (\<forall>d'. r = Inr d' \<longrightarrow> I d')"
    and "I d"
  shows "\<exists>r. for_each_parent body key n xs d = Some r \<and> (\<forall>d'. r = Inr d' \<longrightarrow> I d')"
  using assms
proof (induction xs arbitrary: d)
  case Nil
  then show ?case by simp
next
  case (Cons p xs)
  from Cons.prems(1) [of p d] Cons.prems(2)
  obtain r where r: "body p d = Some r" "\<forall>d'. r = Inr d' \<longrightarrow> I d'" by auto
  show ?case
  proof (cases r)
    case (Inl err)
    with r show ?thesis by simp
  next
    case (Inr d1)
    with r have i: "I d1" by blast
    have "\<exists>r. for_each_parent body key n xs d1 = Some r \<and> (\<forall>d'. r = Inr d' \<longrightarrow> I d')"
      by (rule Cons.IH) (use Cons.prems(1) i in auto)
    with r Inr show ?thesis by simp
  qed
qed

lemma kinds_ok_update_parent_dict:
  assumes "names_ok env" "named env cur" "distinct (map fst cur)" "kinds_ok d"
  shows "kinds_ok (update_parent_dict cur d)"
proof -
  have "fst x = Scenario" if "x \<in> set (dict_get cur ''scenario'')" for x
    using that assms(2) names_ok_iff(1) [OF assms(1)] unfolding named_def by metis
  moreover have "fst x = Task" if "x \<in> set (dict_get cur ''task'')" for x
    using that assms(2) names_ok_iff(2) [OF assms(1)] unfolding named_def by metis
  ultimately show ?thesis
    using assms(4) by (auto simp: kinds_ok_def members_update_parent_dict [OF assms(3)])
qed

lemma collect_parents_start:
  assumes "collect_parents env st ids [] = Inr cur"
  shows "distinct (map fst cur)" "all_distinct cur" "named env cur"
    and "set (dict_get cur key) =
           {x. MANAGER_NAME env (fst x) = key \<and> (\<exists>p\<in>set ids. get env st p = Inr (Ent (fst x) (snd x)))}"
proof -
  note p = collect_parents_props [OF assms]
  from p show "distinct (map fst cur)" by simp
  from p show "all_distinct cur" by (simp add: all_distinct_def dict_get_def)
  from p show "named env cur" by (simp add: named_def dict_get_def)
  from p have "set (dict_get cur key) = set (dict_get [] key) \<union>
     {x. MANAGER_NAME env (fst x) = key \<and> (\<exists>p\<in>set ids. get env st p = Inr (Ent (fst x) (snd x)))}"
    by blast
  then show "set (dict_get cur key) =
           {x. MANAGER_NAME env (fst x) = key \<and> (\<exists>p\<in>set ids. get env st p = Inr (Ent (fst x) (snd x)))}"
    by (simp add: dict_get_def)
qed


lemma get_parents_Task_exact:
  assumes "parent_ids e = Some ids" "collect_parents env st ids [] = Inr cur"
    and "\<forall>x\<in>set (dict_get (update_parent_dict cur (dict_of pd)) ''scenario''). fst x = Scenario"
  shows "get_parents (Suc (Suc n)) env st (Ent Task e) pd
           = Some (Inr (update_parent_dict cur (dict_of pd)))"
proof -
  have "get_parents (Suc n) env st (Ent (fst p) (snd p)) (Some (update_parent_dict cur (dict_of pd)))
          = Some (Inr (update_parent_dict cur (dict_of pd)))"
    if "p \<in> set (dict_get (update_parent_dict cur (dict_of pd)) ''scenario'')" for p
  proof -
    from that assms(3) have "fst p = Scenario" by blast
    then show ?thesis by (simp add: get_parents_terminal dict_of_def)
  qed
  then show ?thesis
    unfolding get_parents_Task_unfold [OF assms(1,2)] by (rule for_each_parent_noop)
qed

lemma get_parents_Task_total:
  assumes "names_ok env" "kinds_ok (dict_of pd)"
  shows "\<exists>r. get_parents (Suc (Suc n)) env st (Ent Task e) pd = Some r \<and>
             (\<forall>d'. r = Inr d' \<longrightarrow> kinds_ok d')"
proof (cases "parent_ids e")
  case None
  then show ?thesis by (simp add: get_parents_no_parent_ids)
next
  case (Some ids)
  show ?thesis
  proof (cases "collect_parents env st ids []")
    case (Inl err)
    with Some show ?thesis by (simp add: get_parents_collect_error)
  next
    case (Inr cur)
    note c = collect_parents_start [OF Inr]
    have k: "kinds_ok (update_parent_dict cur (dict_of pd))"
      by (rule kinds_ok_update_parent_dict [OF assms(1) c(3) c(1) assms(2)])
    then have "\<forall>x\<in>set (dict_get (update_parent_dict cur (dict_of pd)) ''scenario''). fst x = Scenario"
      by (simp add: kinds_ok_def)
    from get_parents_Task_exact [OF Some Inr this] k show ?thesis by simp
  qed
qed

lemma get_parents_DataNode_total:
  assumes "names_ok env" "kinds_ok (dict_of pd)"
  shows "\<exists>r. get_parents (Suc (Suc (Suc n))) env st (Ent DataNode e) pd = Some r \<and>
             (\<forall>d'. r = Inr d' \<longrightarrow> kinds_ok d')"
proof (cases "parent_ids e")
  case None
  then show ?thesis by (simp add: get_parents_no_parent_ids)
next
  case (Some ids)
  show ?thesis
  proof (cases "collect_parents env st ids []")
    case (Inl err)
    with Some show ?thesis by (simp add: get_parents_collect_error)
  next
    case (Inr cur)
    note c = collect_parents_start [OF Inr]
    have k: "kinds_ok (update_parent_dict cur (dict_of pd))"
      by (rule kinds_ok_update_parent_dict [OF assms(1) c(3) c(1) assms(2)])
    have step: "\<exists>r. get_parents (Suc (Suc n)) env st (Ent (fst p) (snd p)) (Some d) = Some r \<and>
                  (\<forall>d'. r = Inr d' \<longrightarrow> kinds_ok d')"
      if "p \<in> set (dict_get (update_parent_dict cur (dict_of pd)) ''task'')" "kinds_ok d" for p d
    proof -
      from that(1) k have "fst p = Task" by (simp add: kinds_ok_def)
      moreover from that(2) have "kinds_ok (dict_of (Some d))" by (simp add: dict_of_def)
      ultimately show ?thesis using get_parents_Task_total [OF assms(1)] by simp
    qed
    show ?thesis
      unfolding get_parents_DataNode_unfold [OF Some Inr]
      by (rule for_each_parent_total [where I = kinds_ok, OF step k])
  qed
qed

lemma get_parents_Ent_total:
  assumes "names_ok env" "kinds_ok (dict_of pd)"
  shows "\<exists>r. get_parents (Suc (Suc (Suc n))) env st (Ent k e) pd = Some r"
proof (cases k)
  case Task
  with get_parents_Task_total [OF assms, of "Suc n" st e] show ?thesis by blast
next
  case DataNode
  with get_parents_DataNode_total [OF assms, of n st e] show ?thesis by blast
next
  case Scenario
  then show ?thesis by (simp add: get_parents_terminal)
next
  case Cycle
  then show ?thesis by (simp add: get_parents_terminal)
next
  case Sequence
  show ?thesis
  proof (cases "parent_ids e")
    case None
    with Sequence show ?thesis by (simp add: get_parents_no_parent_ids)
  next
    case (Some ids)
    with Sequence show ?thesis
      by (cases "collect_parents env st ids []")
        (simp_all add: get_parents_collect_error get_parents_Sequence)
  qed
next
  case Job
  show ?thesis
  proof (cases "parent_ids e")
    case None
    with Job show ?thesis by (simp add: get_parents_no_parent_ids)
  next
    case (Some ids)
    with Job show ?thesis
      by (cases "collect_parents env st ids []")
        (simp_all add: get_parents_collect_error get_parents_Job_Submission)
  qed
next
  case Submission
  show ?thesis
  proof (cases "parent_ids e")
    case None
    with Submission show ?thesis by (simp add: get_parents_no_parent_ids)
  next
    case (Some ids)
    with Submission show ?thesis
      by (cases "collect_parents env st ids []")
        (simp_all add: get_parents_collect_error get_parents_Job_Submission)
  qed
qed

lemma get_parents_total:
  assumes "names_ok env" "kinds_ok (dict_of pd)"
  shows "\<exists>r. get_parents (Suc (Suc (Suc n))) env st arg pd = Some r"
proof (cases "entity_or_get env st arg")
  case (Inl err)
  then show ?thesis by (simp only: get_parents_unresolved) simp
next
  case (Inr ent)
  note r = get_parents_resolved [OF Inr]
  show ?thesis
  proof (cases ent)
    case (Ent k e)
    with get_parents_Ent_total [OF assms, of n st k e] show ?thesis by (simp only: r)
  next
    case PyNone
    then show ?thesis unfolding r by (simp add: get_parents_not_entity)
  next
    case PyOther
    then show ?thesis unfolding r by (simp add: get_parents_not_entity)
  next
    case (PyStr s)
    with entity_or_get_not_str [OF Inr] show ?thesis by blast
  qed
qed

subsection \<open>The loop of a data node over its tasks\<close>

lemma extends_refl: "extends d d"
  by (simp add: extends_def)

lemma extends_trans: "extends a b \<Longrightarrow> extends b c \<Longrightarrow> extends a c"
  unfolding extends_def by blast

lemma extends_update_parent_dict:
  "distinct (map fst cur) \<Longrightarrow> extends d (update_parent_dict cur d)"
  by (simp add: extends_def members_update_parent_dict)

lemma dict_get_update_absent:
  assumes "distinct (map fst cur)" "dict_get cur key = []"
  shows "dict_get (update_parent_dict cur d) key = dict_get d key"
proof (cases "map_of cur key")
  case None
  then show ?thesis by (simp add: dict_get_update_parent_dict [OF assms(1)])
next
  case (Some v)
  with assms(2) have "v = []" by (simp add: dict_get_def)
  with Some show ?thesis
    by (cases "map_of d key")
      (simp_all add: map_of_update_parent_dict [OF assms(1)] dict_get_def set_update_def)
qed

lemma for_each_parent_grows:
  assumes step: "\<And>p d. p \<in> set xs \<Longrightarrow> I d \<Longrightarrow>
      \<exists>d'. body p d = Some (Inr d') \<and> I d' \<and> length (dict_get d' key) = n \<and> extends d d' \<and> P p d'"
    and mono: "\<And>p d d'. P p d \<Longrightarrow> extends d d' \<Longrightarrow> P p d'"
    and "I d"
  shows "\<exists>d'. for_each_parent body key n xs d = Some (Inr d') \<and> I d' \<and> extends d d' \<and>
              (\<forall>p\<in>set xs. P p d')"
  using step \<open>I d\<close>
proof (induction xs arbitrary: d)
  case Nil
  then show ?case by (simp add: extends_refl)
next
  case (Cons p xs)
  from Cons.prems(1) [of p d] Cons.prems(2)
  obtain d1 where d1: "body p d = Some (Inr d1)" "I d1" "length (dict_get d1 key) = n"
    "extends d d1" "P p d1" by auto
  have "\<exists>d'. for_each_parent body key n xs d1 = Some (Inr d') \<and> I d' \<and> extends d1 d' \<and>
              (\<forall>p\<in>set xs. P p d')"
    by (rule Cons.IH) (use Cons.prems(1) d1(2) in auto)
  then obtain d2 where d2: "for_each_parent body key n xs d1 = Some (Inr d2)" "I d2"
    "extends d1 d2" "\<forall>p\<in>set xs. P p d2" by blast
  from d1(5) d2(3) have "P p d2" by (rule mono)
  moreover from d1(4) d2(3) have "extends d d2" by (rule extends_trans)
  moreover from d1(1,3) d2(1) have "for_each_parent body key n (p # xs) d = Some (Inr d2)" by simp
  ultimately show ?case using d2(2,4) by simp
qed


lemma parents_in_mono: "parents_in env st p d \<Longrightarrow> extends d d' \<Longrightarrow> parents_in env st p d'"
  unfolding parents_in_def extends_def by blast

lemma parents_stored_get:
  assumes "parents_stored env st ks e"
  obtains ids where "parent_ids e = Some ids"
    and "\<forall>p\<in>set ids. \<exists>k e'. k \<in> set ks \<and> get env st p = Inr (Ent k e')"
proof -
  from assms obtain ids where i: "parent_ids e = Some ids"
    and s: "\<forall>p\<in>set ids. \<exists>k\<in>set ks. kind_of env p = Some k \<and> stores st k p \<noteq> None"
    by (auto simp: parents_stored_def split: option.splits)
  have "\<exists>k e'. k \<in> set ks \<and> get env st p = Inr (Ent k e')" if "p \<in> set ids" for p
  proof -
    from s that obtain k e' where "k \<in> set ks" "kind_of env p = Some k" "stores st k p = Some e'"
      by auto
    then show ?thesis using get_stored by blast
  qed
  with i that show ?thesis by blast
qed

text \<open>One step of the loop of a data node: the call on one of its tasks.\<close>

lemma task_step:
  assumes n: "names_ok env"
    and ps: "parents_stored env st [Scenario, Sequence] T"
    and d: "kinds_ok d" "all_distinct d" "distinct (map fst d)"
  shows "\<exists>d'. get_parents (Suc (Suc m)) env st (Ent Task T) (Some d) = Some (Inr d') \<and>
           kinds_ok d' \<and> all_distinct d' \<and> distinct (map fst d') \<and>
           dict_get d' ''task'' = dict_get d ''task'' \<and> extends d d' \<and>
           parents_in env st (Task, T) d'"
proof -
  from ps obtain ids where ids: "parent_ids T = Some ids"
    and g: "\<forall>p\<in>set ids. \<exists>k e'. k \<in> set [Scenario, Sequence] \<and> get env st p = Inr (Ent k e')"
    by (rule parents_stored_get)
  from g have "\<forall>p\<in>set ids. \<exists>k e'. get env st p = Inr (Ent k e')" by blast
  from collect_parents_ok [OF this] obtain cur where cur: "collect_parents env st ids [] = Inr cur"
    by blast
  note c = collect_parents_start [OF cur]
  define d' where "d' = update_parent_dict cur d"
  have k: "kinds_ok d'"
    unfolding d'_def by (rule kinds_ok_update_parent_dict [OF n c(3) c(1) d(1)])
  then have sc: "\<forall>x\<in>set (dict_get (update_parent_dict cur (dict_of (Some d))) ''scenario''). fst x = Scenario"
    by (simp add: kinds_ok_def d'_def dict_of_def)
  have run: "get_parents (Suc (Suc m)) env st (Ent Task T) (Some d) = Some (Inr d')"
    using get_parents_Task_exact [OF ids cur sc] by (simp add: d'_def dict_of_def)
  have no_task: "dict_get cur ''task'' = []"
  proof -
    have "x \<notin> set (dict_get cur ''task'')" for x
    proof
      assume "x \<in> set (dict_get cur ''task'')"
      with c(4) [of "''task''"] obtain p where x: "MANAGER_NAME env (fst x) = ''task''"
        "p \<in> set ids" "get env st p = Inr (Ent (fst x) (snd x))" by auto
      from x(1) names_ok_iff(2) [OF n] have "fst x = Task" by simp
      moreover from g x(2,3) have "fst x = Scenario \<or> fst x = Sequence" by auto
      ultimately show False by simp
    qed
    then show ?thesis by (cases "dict_get cur ''task''") auto
  qed
  have t: "dict_get d' ''task'' = dict_get d ''task''"
    unfolding d'_def by (rule dict_get_update_absent [OF c(1) no_task])
  have ad: "all_distinct d'"
    unfolding d'_def by (rule all_distinct_update_parent_dict [OF c(1) c(2) d(2)])
  have dk: "distinct (map fst d')"
    unfolding d'_def by (rule distinct_keys_update_parent_dict [OF d(3)])
  have ex: "extends d d'"
    unfolding d'_def by (rule extends_update_parent_dict [OF c(1)])
  have pin: "parents_in env st (Task, T) d'"
    unfolding parents_in_def
  proof (intro allI impI)
    fix ids' q k e
    assume "parent_ids (snd (Task, T)) = Some ids'" "q \<in> set ids'" "get env st q = Inr (Ent k e)"
    with ids have "q \<in> set ids" "get env st q = Inr (Ent k e)" by simp_all
    then have "(k, e) \<in> set (dict_get cur (MANAGER_NAME env k))"
      unfolding c(4) by auto
    then show "(k, e) \<in> set (dict_get d' (MANAGER_NAME env k))"
      by (simp add: d'_def members_update_parent_dict [OF c(1)])
  qed
  from run k ad dk t ex pin show ?thesis by blast
qed

subsection \<open>Termination and the two hops\<close>

text \<open>
  Claim C8. \<^verbatim>\<open>get_parents\<close> comes back on every entity or identifier, whatever the stores
  hold. On a Scenario or a Cycle it returns the accumulated dictionary as it is, with no
  nested call (depth 1). When \<^verbatim>\<open>"scenario"\<close> names scenarios only and \<^verbatim>\<open>"task"\<close> tasks
  only, and the accumulated dictionary is absent, as at the entry, or well kinded, as at every
  nested call, a Task needs one nested level (depth 2, through the scenarios found) and a
  DataNode two (depth 3, through the tasks found, then their scenarios); depth 3 is enough
  for every argument. The result may be an exception (\<open>Inl\<close>), never a recursion that does
  not end.
\<close>

theorem get_parents_terminates:
  "(\<forall>k e. entity_or_get env st arg = Inr (Ent k e) \<and> (k = Scenario \<or> k = Cycle) \<longrightarrow>
      get_parents (Suc n) env st arg pd = Some (Inr (dict_of pd))) \<and>
   (names_ok env \<and> kinds_ok (dict_of pd) \<longrightarrow>
      (\<forall>e. entity_or_get env st arg = Inr (Ent Task e) \<longrightarrow>
         (\<exists>r. get_parents (Suc (Suc n)) env st arg pd = Some r)) \<and>
      (\<forall>e. entity_or_get env st arg = Inr (Ent DataNode e) \<longrightarrow>
         (\<exists>r. get_parents (Suc (Suc (Suc n))) env st arg pd = Some r)) \<and>
      (\<exists>r. get_parents (Suc (Suc (Suc n))) env st arg pd = Some r))"
proof (intro conjI allI impI)
  fix k e
  assume "entity_or_get env st arg = Inr (Ent k e) \<and> (k = Scenario \<or> k = Cycle)"
  then show "get_parents (Suc n) env st arg pd = Some (Inr (dict_of pd))"
    by (simp add: get_parents_resolved get_parents_terminal)
next
  fix e
  assume a: "names_ok env \<and> kinds_ok (dict_of pd)" and r: "entity_or_get env st arg = Inr (Ent Task e)"
  from a have "\<exists>r. get_parents (Suc (Suc n)) env st (Ent Task e) pd = Some r \<and>
             (\<forall>d'. r = Inr d' \<longrightarrow> kinds_ok d')"
    by (simp add: get_parents_Task_total)
  then show "\<exists>r. get_parents (Suc (Suc n)) env st arg pd = Some r"
    unfolding get_parents_resolved [OF r] by blast
next
  fix e
  assume a: "names_ok env \<and> kinds_ok (dict_of pd)" and r: "entity_or_get env st arg = Inr (Ent DataNode e)"
  from a have "\<exists>r. get_parents (Suc (Suc (Suc n))) env st (Ent DataNode e) pd = Some r \<and>
             (\<forall>d'. r = Inr d' \<longrightarrow> kinds_ok d')"
    by (simp add: get_parents_DataNode_total)
  then show "\<exists>r. get_parents (Suc (Suc (Suc n))) env st arg pd = Some r"
    unfolding get_parents_resolved [OF r] by blast
next
  assume a: "names_ok env \<and> kinds_ok (dict_of pd)"
  then show "\<exists>r. get_parents (Suc (Suc (Suc n))) env st arg pd = Some r"
    by (simp add: get_parents_total)
qed

text \<open>
  Claim C5. Let \<open>D\<close> be a data node, given as the entity or by its identifier, whose parent
  identifiers all resolve to stored tasks, each with parents that are stored scenarios or
  sequences. If task \<open>T\<close> is among the parents of \<open>D\<close> and scenario \<open>S\<close> among the parents of
  \<open>T\<close>, then \<^verbatim>\<open>get_parents\<close>, called without a dictionary, returns a dictionary that has
  \<open>T\<close> under \<^verbatim>\<open>"task"\<close> and \<open>S\<close>, two hops up, under \<^verbatim>\<open>"scenario"\<close>; no key occurs
  twice and no member is listed twice under a key.
\<close>

theorem get_parents_two_hops:
  assumes n: "names_ok env"
    and arg: "entity_or_get env st arg = Inr (Ent DataNode D)"
    and dids: "parent_ids D = Some dids"
    and tasks: "\<forall>p\<in>set dids. kind_of env p = Some Task \<and>
          (\<exists>T'. stores st Task p = Some T' \<and> parents_stored env st [Scenario, Sequence] T')"
    and tid: "tid \<in> set dids" "stores st Task tid = Some T"
    and tids: "parent_ids T = Some tids"
    and sid: "sid \<in> set tids" "kind_of env sid = Some Scenario" "stores st Scenario sid = Some S"
  shows "\<exists>pd. get_parents (Suc (Suc (Suc m))) env st arg None = Some (Inr pd) \<and>
           (Task, T) \<in> set (dict_get pd ''task'') \<and>
           (Scenario, S) \<in> set (dict_get pd ''scenario'') \<and>
           (\<forall>key. distinct (dict_get pd key)) \<and> distinct (map fst pd)"
proof -
  have g: "\<exists>T'. get env st p = Inr (Ent Task T') \<and> parents_stored env st [Scenario, Sequence] T'"
    if "p \<in> set dids" for p
    using tasks that get_stored by blast
  then have "\<forall>p\<in>set dids. \<exists>k e. get env st p = Inr (Ent k e)" by blast
  from collect_parents_ok [OF this] obtain cur where cur: "collect_parents env st dids [] = Inr cur"
    by blast
  note c = collect_parents_start [OF cur]
  define d0 where "d0 = update_parent_dict cur (dict_of None)"
  have e0: "dict_get (dict_of None) key = []" for key
    by (simp add: dict_of_def dict_get_def)
  have d0_get: "set (dict_get d0 key) = set (dict_get cur key)" for key
    by (simp add: d0_def members_update_parent_dict [OF c(1)] e0)
  have k0: "kinds_ok d0"
    unfolding d0_def
    by (rule kinds_ok_update_parent_dict [OF n c(3) c(1)]) (simp add: kinds_ok_def dict_of_def dict_get_def)
  have a0: "all_distinct d0"
    unfolding d0_def
    by (rule all_distinct_update_parent_dict [OF c(1) c(2)]) (simp add: all_distinct_def dict_of_def dict_get_def)
  have dk0: "distinct (map fst d0)"
    unfolding d0_def by (rule distinct_keys_update_parent_dict) (simp add: dict_of_def)
  define ts where "ts = dict_get d0 ''task''"
  define I where "I d \<longleftrightarrow> kinds_ok d \<and> all_distinct d \<and> distinct (map fst d) \<and> dict_get d ''task'' = ts" for d
  have I0: "I d0" by (simp add: I_def k0 a0 dk0 ts_def)
  have ts_stored: "fst p = Task \<and> parents_stored env st [Scenario, Sequence] (snd p)" if "p \<in> set ts" for p
  proof -
    from that have "p \<in> set (dict_get cur ''task'')" by (simp add: ts_def d0_get)
    with c(4) [of "''task''"] obtain q where q: "q \<in> set dids" "get env st q = Inr (Ent (fst p) (snd p))"
      by auto
    with g [of q] show ?thesis by auto
  qed
  have step: "\<exists>d'. get_parents (Suc (Suc m)) env st (Ent (fst p) (snd p)) (Some d) = Some (Inr d') \<and>
        I d' \<and> length (dict_get d' ''task'') = length ts \<and> extends d d' \<and> parents_in env st p d'"
    if "p \<in> set ts" "I d" for p d
  proof -
    from ts_stored [OF that(1)] have p: "fst p = Task" "parents_stored env st [Scenario, Sequence] (snd p)"
      by simp_all
    from that(2) have d: "kinds_ok d" "all_distinct d" "distinct (map fst d)" "dict_get d ''task'' = ts"
      by (simp_all add: I_def)
    from task_step [OF n p(2) d(1,2,3), of m] p(1) d(4) show ?thesis
      by (cases p) (auto simp: I_def)
  qed
  have "\<exists>d'. for_each_parent
          (\<lambda>parent d. get_parents (Suc (Suc m)) env st (Ent (fst parent) (snd parent)) (Some d))
          ''task'' (length ts) ts d0 = Some (Inr d') \<and> I d' \<and> extends d0 d' \<and>
          (\<forall>p\<in>set ts. parents_in env st p d')"
    by (rule for_each_parent_grows [where I = I and P = "parents_in env st", OF step parents_in_mono I0])
  then obtain pd where run: "for_each_parent
          (\<lambda>parent d. get_parents (Suc (Suc m)) env st (Ent (fst parent) (snd parent)) (Some d))
          ''task'' (length ts) ts d0 = Some (Inr pd)"
    and Ipd: "I pd" and pin: "\<forall>p\<in>set ts. parents_in env st p pd" by blast
  have res: "get_parents (Suc (Suc (Suc m))) env st arg None = Some (Inr pd)"
    unfolding get_parents_resolved [OF arg] get_parents_DataNode_unfold [OF dids cur]
    using run by (simp add: d0_def ts_def)
  from tid tasks get_stored have gt: "get env st tid = Inr (Ent Task T)" by blast
  have "(Task, T) \<in> set (dict_get cur (MANAGER_NAME env Task))"
    unfolding c(4) using tid(1) gt by auto
  with names_ok_iff(2) [OF n, of Task] have tin: "(Task, T) \<in> set ts"
    by (simp add: ts_def d0_get)
  with Ipd have 1: "(Task, T) \<in> set (dict_get pd ''task'')" by (simp add: I_def)
  from sid have gs: "get env st sid = Inr (Ent Scenario S)" by (simp add: get_stored)
  from pin tin have "parents_in env st (Task, T) pd" by blast
  with tids sid(1) gs have "(Scenario, S) \<in> set (dict_get pd (MANAGER_NAME env Scenario))"
    unfolding parents_in_def by auto
  with names_ok_iff(1) [OF n, of Scenario] have 2: "(Scenario, S) \<in> set (dict_get pd ''scenario'')"
    by simp
  from Ipd have 3: "\<forall>key. distinct (dict_get pd key)" and 4: "distinct (map fst pd)"
    by (simp_all add: I_def all_distinct_def)
  from res 1 2 3 4 show ?thesis by blast
qed


lemma names_ok_sample: "names_ok sample_env"
  by (simp add: names_ok_def priority_def sample_env_def)

lemma graph_state_stores:
  "stores graph_state DataNode ''DATANODE_d1'' = Some (mk_entity ''DATANODE_d1'' ''1.0'' (Some [''TASK_t1'']))"
  "stores graph_state Task ''TASK_t1'' = Some (mk_entity ''TASK_t1'' ''1.0'' (Some [''SCENARIO_s1'']))"
  "stores graph_state Scenario ''SCENARIO_s1'' = Some (mk_entity ''SCENARIO_s1'' ''1.0'' None)"
  "stores graph_state Job ''JOB_j1'' = Some (mk_entity ''JOB_j1'' ''1.0'' None)"
  by (simp_all add: graph_state_def empty_state_def)

lemma graph_state_entities:
  "entity_or_get sample_env graph_state (PyStr ''DATANODE_d1'')
     = Inr (Ent DataNode (mk_entity ''DATANODE_d1'' ''1.0'' (Some [''TASK_t1''])))"
  "entity_or_get sample_env graph_state (PyStr ''TASK_t1'')
     = Inr (Ent Task (mk_entity ''TASK_t1'' ''1.0'' (Some [''SCENARIO_s1''])))"
  "entity_or_get sample_env graph_state (PyStr ''SCENARIO_s1'')
     = Inr (Ent Scenario (mk_entity ''SCENARIO_s1'' ''1.0'' None))"
  by (simp_all add: entity_or_get_def get_stored [OF sample_kind_of(1) graph_state_stores(1)]
      get_stored [OF sample_kind_of(3) graph_state_stores(2)]
      get_stored [OF sample_kind_of(4) graph_state_stores(3)])

theorem get_parents_terminates_witness:
  "names_ok sample_env \<and> kinds_ok (dict_of None) \<and>
   entity_or_get sample_env graph_state (PyStr ''SCENARIO_s1'')
     = Inr (Ent Scenario (mk_entity ''SCENARIO_s1'' ''1.0'' None)) \<and>
   get_parents (Suc 0) sample_env graph_state (PyStr ''SCENARIO_s1'') None = Some (Inr []) \<and>
   entity_or_get sample_env graph_state (PyStr ''TASK_t1'')
     = Inr (Ent Task (mk_entity ''TASK_t1'' ''1.0'' (Some [''SCENARIO_s1'']))) \<and>
   (\<exists>r. get_parents (Suc (Suc 0)) sample_env graph_state (PyStr ''TASK_t1'') None = Some r) \<and>
   entity_or_get sample_env graph_state (PyStr ''DATANODE_d1'')
     = Inr (Ent DataNode (mk_entity ''DATANODE_d1'' ''1.0'' (Some [''TASK_t1'']))) \<and>
   (\<exists>r. get_parents (Suc (Suc (Suc 0))) sample_env graph_state (PyStr ''DATANODE_d1'') None = Some r)"
proof -
  have k: "kinds_ok (dict_of None)" by (simp add: kinds_ok_def dict_of_def dict_get_def)
  note s = get_parents_terminates [of sample_env graph_state "PyStr ''SCENARIO_s1''" 0 None]
  note t = get_parents_terminates [of sample_env graph_state "PyStr ''TASK_t1''" 0 None]
  note d = get_parents_terminates [of sample_env graph_state "PyStr ''DATANODE_d1''" 0 None]
  from s graph_state_entities(3)
  have "get_parents (Suc 0) sample_env graph_state (PyStr ''SCENARIO_s1'') None = Some (Inr (dict_of None))"
    by blast
  then have 1: "get_parents (Suc 0) sample_env graph_state (PyStr ''SCENARIO_s1'') None = Some (Inr [])"
    by (simp add: dict_of_def)
  from t names_ok_sample k graph_state_entities(2)
  have 2: "\<exists>r. get_parents (Suc (Suc 0)) sample_env graph_state (PyStr ''TASK_t1'') None = Some r"
    by blast
  from d names_ok_sample k graph_state_entities(1)
  have 3: "\<exists>r. get_parents (Suc (Suc (Suc 0))) sample_env graph_state (PyStr ''DATANODE_d1'') None = Some r"
    by blast
  from names_ok_sample k graph_state_entities 1 2 3 show ?thesis by blast
qed

theorem get_parents_two_hops_witness:
  "names_ok sample_env \<and>
   entity_or_get sample_env graph_state (PyStr ''DATANODE_d1'')
     = Inr (Ent DataNode (mk_entity ''DATANODE_d1'' ''1.0'' (Some [''TASK_t1'']))) \<and>
   parent_ids (mk_entity ''DATANODE_d1'' ''1.0'' (Some [''TASK_t1''])) = Some [''TASK_t1''] \<and>
   kind_of sample_env ''TASK_t1'' = Some Task \<and>
   stores graph_state Task ''TASK_t1'' = Some (mk_entity ''TASK_t1'' ''1.0'' (Some [''SCENARIO_s1''])) \<and>
   parents_stored sample_env graph_state [Scenario, Sequence]
     (mk_entity ''TASK_t1'' ''1.0'' (Some [''SCENARIO_s1''])) \<and>
   parent_ids (mk_entity ''TASK_t1'' ''1.0'' (Some [''SCENARIO_s1''])) = Some [''SCENARIO_s1''] \<and>
   kind_of sample_env ''SCENARIO_s1'' = Some Scenario \<and>
   stores graph_state Scenario ''SCENARIO_s1'' = Some (mk_entity ''SCENARIO_s1'' ''1.0'' None) \<and>
   (\<exists>pd. get_parents (Suc (Suc (Suc 0))) sample_env graph_state (PyStr ''DATANODE_d1'') None
            = Some (Inr pd) \<and>
         (Task, mk_entity ''TASK_t1'' ''1.0'' (Some [''SCENARIO_s1''])) \<in> set (dict_get pd ''task'') \<and>
         (Scenario, mk_entity ''SCENARIO_s1'' ''1.0'' None) \<in> set (dict_get pd ''scenario''))"
proof -
  have pd: "parent_ids (mk_entity ''DATANODE_d1'' ''1.0'' (Some [''TASK_t1''])) = Some [''TASK_t1'']"
    and pt: "parent_ids (mk_entity ''TASK_t1'' ''1.0'' (Some [''SCENARIO_s1''])) = Some [''SCENARIO_s1'']"
    by (simp_all add: mk_entity_def)
  have ps: "parents_stored sample_env graph_state [Scenario, Sequence]
     (mk_entity ''TASK_t1'' ''1.0'' (Some [''SCENARIO_s1'']))"
    by (simp add: parents_stored_def pt sample_kind_of(4) graph_state_stores(3))
  have tasks: "\<forall>p\<in>set [''TASK_t1'']. kind_of sample_env p = Some Task \<and>
          (\<exists>T'. stores graph_state Task p = Some T' \<and>
                parents_stored sample_env graph_state [Scenario, Sequence] T')"
    by (simp add: sample_kind_of(3) graph_state_stores(2) ps)
  have m: "''TASK_t1'' \<in> set [''TASK_t1'']" "''SCENARIO_s1'' \<in> set [''SCENARIO_s1'']" by simp_all
  from get_parents_two_hops [OF names_ok_sample graph_state_entities(1) pd tasks m(1)
      graph_state_stores(2) pt m(2) sample_kind_of(4) graph_state_stores(3), of 0]
  have "\<exists>pd. get_parents (Suc (Suc (Suc 0))) sample_env graph_state (PyStr ''DATANODE_d1'') None
            = Some (Inr pd) \<and>
         (Task, mk_entity ''TASK_t1'' ''1.0'' (Some [''SCENARIO_s1''])) \<in> set (dict_get pd ''task'') \<and>
         (Scenario, mk_entity ''SCENARIO_s1'' ''1.0'' None) \<in> set (dict_get pd ''scenario'')"
    by blast
  with names_ok_sample graph_state_entities(1) pd sample_kind_of(3,4) graph_state_stores(2,3) ps pt
  show ?thesis by blast
qed

text \<open>
  The walk on \<open>graph_state\<close>, evaluated: depth 3 gives the two entries, depth 2 is not
  enough for the data node.
\<close>

lemma get_parents_sample_run:
  "get_parents 3 sample_env graph_state (PyStr ''DATANODE_d1'') None =
     Some (Inr [(''task'', [(Task, mk_entity ''TASK_t1'' ''1.0'' (Some [''SCENARIO_s1'']))]),
                (''scenario'', [(Scenario, mk_entity ''SCENARIO_s1'' ''1.0'' None)])])"
  "get_parents 2 sample_env graph_state (PyStr ''DATANODE_d1'') None = None"
  by (simp_all add: get_parents.simps numeral_3_eq_3 numeral_2_eq_2 entity_or_get_def get_def
      is_job_def is_cycle_def is_scenario_def
      is_sequence_def is_task_def is_data_node_def is_submission_def startswith_def sample_env_def
      manager_get_def graph_state_def empty_state_def isinstance_def mk_entity_def dict_store_def
      dict_get_def set_update_def set_add_def)

end
